(* ===== verification/Go_Base.thy ===== *)
theory Go_Base
  imports Main "HOL-Library.Word" "HOL-Library.Char_ord" "HOL-Library.List_Lexorder"
begin

text \<open>
  The prelude of the development: the fact collections, the type synonyms the components share,
  and the generic lemmas on lists, options and words that their proofs use.

  \<^item> \<open>go_defs\<close> collects the definitions of the model of Go's standard library (strings, strconv,
    net/netip), so that a closed term evaluates with \<open>simp add: go_defs\<close>;
  \<^item> \<open>addr_simps\<close> collects the rewrite rules on addresses and prefixes;
  \<^item> \<open>step_simps\<close> collects the equations of state-changing operations.
\<close>

named_theorems go_defs \<open>definitions of the Go standard library model\<close>
named_theorems addr_simps \<open>rewrite rules for addresses and prefixes\<close>
named_theorems step_simps \<open>equations of state-changing operations\<close>

type_synonym byte = "8 word"
type_synonym bytes = "byte list"
type_synonym port = "16 word"

text \<open>Durations and instants are counted in nanoseconds, as in package time.\<close>

type_synonym duration = int

abbreviation second_ns :: duration where "second_ns \<equiv> 1000000000"
abbreviation minute_ns :: duration where "minute_ns \<equiv> 60 * second_ns"
abbreviation hour_ns :: duration where "hour_ns \<equiv> 60 * minute_ns"

section \<open>Lists\<close>

lemma take_append_same [simp]: "take (length p) (p @ s) = p"
  by simp

lemma dropWhile_idem [simp]: "dropWhile P (dropWhile P xs) = dropWhile P xs"
  by (induction xs) auto

lemma hd_dropWhile_not: "dropWhile P xs \<noteq> [] \<Longrightarrow> \<not> P (hd (dropWhile P xs))"
  by (rule hd_dropWhile)

lemma dropWhile_noop: "xs = [] \<or> \<not> P (hd xs) \<Longrightarrow> dropWhile P xs = xs"
  by (cases xs) auto

lemma those_map_Some [simp]: "those (map Some xs) = Some xs"
  by (induction xs) auto

lemma those_Some_iff: "those xs = Some ys \<longleftrightarrow> xs = map Some ys"
proof (induction xs arbitrary: ys)
  case Nil
  then show ?case by auto
next
  case (Cons x xs)
  then show ?case by (cases ys) (auto split: option.splits)
qed

lemma replicate_numeral [go_defs]: "replicate (numeral k) x = x # replicate (pred_numeral k) x"
  by (simp add: numeral_eq_Suc)

declare char_of_def [go_defs] bit_Suc_0_iff [go_defs]

section \<open>Words\<close>

unbundle bit_operations_syntax

lemma word_eq_iff_unat: "(v :: 'a::len word) = w \<longleftrightarrow> unat v = unat w"
  by (rule word_unat_eq_iff)

lemma word_xor_eq_0: "(a :: 'a::len word) XOR b = 0 \<longleftrightarrow> a = b"
  by (auto simp: bit_eq_iff bit_simps)

lemma word_drop_bit_eq_iff:
  "drop_bit n (a :: 'a::len word) = drop_bit n b \<longleftrightarrow> unat a div 2 ^ n = unat b div 2 ^ n"
  unfolding word_unat_eq_iff unat_drop_bit_eq by (simp add: drop_bit_eq_div)

lemma word_and_not_mask_push: "(a :: 'a::len word) AND NOT (mask n) = push_bit n (drop_bit n a)"
  by (rule bit_word_eqI) (auto simp: bit_simps)

lemma word_drop_push_drop: "drop_bit n (push_bit n (drop_bit n (a :: 'a::len word))) = drop_bit n a"
  by (rule bit_word_eqI) (auto simp: bit_simps dest: bit_imp_le_length)

lemma drop_bit_and_not_mask [simp]: "drop_bit n ((a :: 'a::len word) AND NOT (mask n)) = drop_bit n a"
  by (simp only: word_and_not_mask_push word_drop_push_drop)

lemma word_and_not_mask_eq_0: "(a :: 'a::len word) AND NOT (mask n) = 0 \<longleftrightarrow> drop_bit n a = 0"
  by (metis drop_bit_and_not_mask drop_bit_of_0 push_bit_of_0 word_and_not_mask_push)

text \<open>Two words agree above bit \<open>n\<close>: the test a prefix match makes, as a division.\<close>

lemma same_prefix_bits:
  "drop_bit n ((a :: 'a::len word) XOR p) = 0 \<longleftrightarrow> unat a div 2 ^ n = unat p div 2 ^ n"
  by (simp only: drop_bit_xor word_xor_eq_0 word_drop_bit_eq_iff)

text \<open>A masked comparison against a constant with clear low bits, as a division.\<close>

lemma word_and_not_mask_eq:
  assumes "p AND NOT (mask n) = p"
  shows "(a :: 'a::len word) AND NOT (mask n) = p \<longleftrightarrow> unat a div 2 ^ n = unat p div 2 ^ n"
  by (metis assms drop_bit_and_not_mask word_and_not_mask_push word_drop_bit_eq_iff)

lemma unat_ucast_mod: "unat (ucast (w :: 'a::len word) :: 'b::len word) = unat w mod 2 ^ LENGTH('b)"
  by (simp add: unsigned_ucast_eq take_bit_eq_mod)

lemma unat_drop_div: "unat (drop_bit n (w :: 'a::len word)) = unat w div 2 ^ n"
  unfolding unat_drop_bit_eq by (simp add: drop_bit_eq_div)

lemma unat32_bound: "unat (a :: 32 word) < 4294967296"
  using unsigned_less [of a] by simp
lemma unat128_bound: "unat (a :: 128 word) < 340282366920938463463374607431768211456"
  using unsigned_less [of a] by simp


section \<open>Quotients\<close>

lemma div_eq_interval: "0 < d \<Longrightarrow> (x :: nat) div d = q \<longleftrightarrow> q * d \<le> x \<and> x < Suc q * d"
  by (metis div_nat_eqI div_times_less_eq_dividend dividend_less_div_times mult.commute mult_Suc)

text \<open>Two adjacent digits of a number, read as one.\<close>

lemma div_digits: "0 < b \<Longrightarrow> q < b \<Longrightarrow>
  ((x :: nat) div (d * b) = p \<and> x div d mod b = q) \<longleftrightarrow> x div d = p * b + q"
proof -
  assume b: "0 < b" "q < b"
  have "x div (d * b) = x div d div b" by (simp add: div_mult2_eq)
  moreover have "(y div b = p \<and> y mod b = q) \<longleftrightarrow> y = p * b + q" for y
    using b by (metis add.commute add.left_neutral div_less div_mult_self3 div_mult_mod_eq mod_less mod_mult_self3 not_less_zero)
  ultimately show ?thesis by simp
qed

end
