(* ===== verification/Go_Strings.thy ===== *)
theory Go_Strings
  imports Go_Base
begin

text \<open>
  What the program uses of Go's packages \<^verbatim>\<open>strings\<close> and \<^verbatim>\<open>strconv\<close>. A Go string is its
  bytes, here a list of \<^typ>\<open>char\<close>. The case and white-space functions are modelled on ASCII:
  bytes of 128 and above are left as they are, so Unicode case folding and Unicode spaces are
  outside the model.
\<close>

section \<open>Package strings\<close>

definition is_space :: "char \<Rightarrow> bool" where
  [go_defs]: "is_space c \<longleftrightarrow> c \<in> {CHR 0x09, CHR 0x0A, CHR 0x0B, CHR 0x0C, CHR 0x0D, CHR '' ''}"

definition TrimLeft_space :: "string \<Rightarrow> string" where
  [go_defs]: "TrimLeft_space s = dropWhile is_space s"

definition TrimSpace :: "string \<Rightarrow> string" where
  [go_defs]: "TrimSpace s = rev (dropWhile is_space (rev (dropWhile is_space s)))"

definition lower_char :: "char \<Rightarrow> char" where
  [go_defs]: "lower_char c =
     (if 65 \<le> (of_char c :: nat) \<and> (of_char c :: nat) \<le> 90 then char_of ((of_char c :: nat) + 32) else c)"

definition ToLower :: "string \<Rightarrow> string" where
  [go_defs]: "ToLower s = map lower_char s"

definition HasPrefix :: "string \<Rightarrow> string \<Rightarrow> bool" where
  [go_defs]: "HasPrefix s p \<longleftrightarrow> take (length p) s = p"

definition HasSuffix :: "string \<Rightarrow> string \<Rightarrow> bool" where
  [go_defs]: "HasSuffix s p \<longleftrightarrow> length p \<le> length s \<and> drop (length s - length p) s = p"

definition TrimPrefix :: "string \<Rightarrow> string \<Rightarrow> string" where
  [go_defs]: "TrimPrefix s p = (if HasPrefix s p then drop (length p) s else s)"

definition TrimSuffix :: "string \<Rightarrow> string \<Rightarrow> string" where
  [go_defs]: "TrimSuffix s p = (if HasSuffix s p then take (length s - length p) s else s)"

fun Index :: "string \<Rightarrow> string \<Rightarrow> nat option" where
  "Index [] sub = (if sub = [] then Some 0 else None)"
| "Index (c # s) sub =
     (if HasPrefix (c # s) sub then Some 0 else map_option Suc (Index s sub))"

definition Contains :: "string \<Rightarrow> string \<Rightarrow> bool" where
  [go_defs]: "Contains s sub \<longleftrightarrow> Index s sub \<noteq> None"

text \<open>\<open>LastIndexByte s c\<close> is the position of the last \<open>c\<close>, and \<open>Cut\<close> at that position or at the
  first one is all the program does with it.\<close>

fun LastIndexByte :: "string \<Rightarrow> char \<Rightarrow> nat option" where
  "LastIndexByte [] c = None"
| "LastIndexByte (x # s) c =
     (case LastIndexByte s c of
        Some i \<Rightarrow> Some (Suc i)
      | None \<Rightarrow> if x = c then Some 0 else None)"

lemma LastIndexByte_none: "LastIndexByte s c = None \<longleftrightarrow> c \<notin> set s"
  by (induction s) (auto split: option.splits)

lemma LastIndexByte_append: "c \<notin> set t \<Longrightarrow> LastIndexByte (s @ c # t) c = Some (length s)"
  by (induction s) (simp_all add: LastIndexByte_none [THEN iffD2])

fun IndexByte :: "string \<Rightarrow> char \<Rightarrow> nat option" where
  "IndexByte [] c = None"
| "IndexByte (x # s) c = (if x = c then Some 0 else map_option Suc (IndexByte s c))"

text \<open>\<open>strings.Split\<close> with a one-byte separator: always at least one part.\<close>

fun Split :: "string \<Rightarrow> char \<Rightarrow> string list" where
  "Split [] c = [[]]"
| "Split (x # s) c =
     (if x = c then [] # Split s c
      else (case Split s c of [] \<Rightarrow> [[x]] | p # ps \<Rightarrow> (x # p) # ps))"

text \<open>\<open>strings.Fields\<close>: the maximal runs of non-space bytes.\<close>

function Fields :: "string \<Rightarrow> string list" where
  "Fields s =
     (let t = dropWhile is_space s in
      if t = [] then [] else takeWhile (\<lambda>c. \<not> is_space c) t # Fields (dropWhile (\<lambda>c. \<not> is_space c) t))"
  by pat_completeness auto
termination
proof (relation "measure length")
  fix s :: string and t :: string
  assume t: "t = dropWhile is_space s" and ne: "t \<noteq> []"
  then have "\<not> is_space (hd t)" by (simp add: hd_dropWhile)
  with ne have "length (dropWhile (\<lambda>c. \<not> is_space c) t) < length t"
    by (cases t) (auto simp: length_dropWhile_le le_imp_less_Suc)
  moreover have "length t \<le> length s" by (simp add: t length_dropWhile_le)
  ultimately show "(dropWhile (\<lambda>c. \<not> is_space c) t, s) \<in> measure length" by simp
qed simp

declare Fields.simps [simp del]

subsection \<open>Parts of a string\<close>

lemma Split_parts: "p \<in> set (Split s c) \<Longrightarrow> set p \<subseteq> set s - {c}"
  by (induction s arbitrary: p) (fastforce split: list.splits if_splits)+

lemma Split_none: "c \<notin> set s \<Longrightarrow> Split s c = [s]"
  by (induction s) auto

lemma Split_first: "c \<notin> set s \<Longrightarrow> Split (s @ c # t) c = s # Split t c"
  by (induction s) auto

lemma TrimSpace_subset: "set (TrimSpace s) \<subseteq> set s"
  by (auto simp: TrimSpace_def dest!: set_dropWhileD)

lemma TrimSpace_same: "s \<noteq> [] \<Longrightarrow> \<not> is_space (hd s) \<Longrightarrow> \<not> is_space (last s) \<Longrightarrow> TrimSpace s = s"
proof -
  assume s: "s \<noteq> []" "\<not> is_space (hd s)" "\<not> is_space (last s)"
  then have "dropWhile is_space s = s" "dropWhile is_space (rev s) = rev s" by (auto simp: dropWhile_eq_self_iff hd_rev)
  then show ?thesis by (simp add: TrimSpace_def)
qed

lemma TrimPrefix_subset: "set (TrimPrefix s p) \<subseteq> set s"
  by (auto simp: TrimPrefix_def dest: in_set_dropD)

lemma Contains_subset: "Contains s sub \<Longrightarrow> set sub \<subseteq> set s"
proof -
  have "Index s sub = Some i \<Longrightarrow> set sub \<subseteq> set s" for i
  proof (induction s arbitrary: i)
    case (Cons c s)
    then show ?case
      using set_take_subset [of "length sub" "c # s"] by (auto simp: HasPrefix_def split: if_splits)
  qed (auto split: if_splits)
  then show "Contains s sub \<Longrightarrow> set sub \<subseteq> set s" by (auto simp: Contains_def)
qed

lemma Contains_middle: "Contains (a @ sub @ b) sub"
proof -
  have "Index (sub @ b) sub = Some 0" by (cases sub; cases b) (auto simp: HasPrefix_def)
  then have "Index (a @ sub @ b) sub \<noteq> None" by (induction a) auto
  then show ?thesis by (simp add: Contains_def)
qed

section \<open>Package strconv\<close>

definition is_digit :: "char \<Rightarrow> bool" where
  [go_defs]: "is_digit c \<longleftrightarrow> 48 \<le> (of_char c :: nat) \<and> (of_char c :: nat) \<le> 57"

definition digit_val :: "char \<Rightarrow> nat" where
  [go_defs]: "digit_val c = of_char c - 48"

definition dec_val :: "string \<Rightarrow> nat" where
  [go_defs]: "dec_val s = foldl (\<lambda>a c. 10 * a + digit_val c) 0 s"

definition dec_digit :: "nat \<Rightarrow> char" where
  [go_defs]: "dec_digit n = char_of (48 + n)"

fun Itoa :: "nat \<Rightarrow> string" where
  "Itoa n = (if n < 10 then [dec_digit n] else Itoa (n div 10) @ [dec_digit (n mod 10)])"

declare Itoa.simps [simp del]

text \<open>\<open>strconv.ParseUint(s, 10, bits)\<close>: digits only, and in range.\<close>

definition ParseUint :: "string \<Rightarrow> nat \<Rightarrow> nat option" where
  [go_defs]: "ParseUint s bits =
     (if s \<noteq> [] \<and> list_all is_digit s \<and> dec_val s < 2 ^ bits then Some (dec_val s) else None)"

text \<open>\<open>strconv.Atoi\<close>: an optional sign, digits, the range of a 64-bit int.\<close>

definition Atoi :: "string \<Rightarrow> int option" where
  [go_defs]: "Atoi s =
     (let neg = (s \<noteq> [] \<and> hd s = CHR ''-'');
          t = (if s \<noteq> [] \<and> (hd s = CHR ''-'' \<or> hd s = CHR ''+'') then tl s else s)
      in if t = [] \<or> \<not> list_all is_digit t then None
         else let v = (if neg then - int (dec_val t) else int (dec_val t))
              in if - (2 ^ 63) \<le> v \<and> v < 2 ^ 63 then Some v else None)"

end
