(* ===== verification/Go_Netip.thy ===== *)
theory Go_Netip
  imports Go_Strings
begin

unbundle bit_operations_syntax

text \<open>
  What the program uses of Go's package \<^verbatim>\<open>net/netip\<close>: addresses, prefixes, address-port pairs,
  their parsers and printers, and the address class predicates. A parse error is \<^const>\<open>None\<close>;
  the program only wraps its text.
\<close>

section \<open>Addresses\<close>

text \<open>\<open>netip.Addr\<close>: the zero value, an IPv4 address, or an IPv6 address with its zone (empty for none).\<close>

datatype Addr = AddrZero | V4 "32 word" | V6 "128 word" string

fun Addr_IsValid :: "Addr \<Rightarrow> bool" where
  "Addr_IsValid AddrZero = False"
| "Addr_IsValid _ = True"

fun Addr_Is4 :: "Addr \<Rightarrow> bool" where
  "Addr_Is4 (V4 _) = True"
| "Addr_Is4 _ = False"

fun Addr_Is6 :: "Addr \<Rightarrow> bool" where
  "Addr_Is6 (V6 _ _) = True"
| "Addr_Is6 _ = False"

fun Addr_Zone :: "Addr \<Rightarrow> string" where
  "Addr_Zone (V6 _ z) = z"
| "Addr_Zone _ = []"

fun BitLen :: "Addr \<Rightarrow> nat" where
  "BitLen AddrZero = 0"
| "BitLen (V4 _) = 32"
| "BitLen (V6 _ _) = 128"

text \<open>The IPv4-mapped block \<^verbatim>\<open>::ffff:0:0/96\<close>.\<close>

fun Is4In6 :: "Addr \<Rightarrow> bool" where
  "Is4In6 (V6 w _) = (drop_bit 32 w = 0xffff)"
| "Is4In6 _ = False"

fun Unmap :: "Addr \<Rightarrow> Addr" where
  "Unmap (V6 w z) = (if Is4In6 (V6 w z) then V4 (ucast w) else V6 w z)"
| "Unmap a = a"

text \<open>Byte \<open>i\<close> of an address, counted from the most significant one.\<close>

definition v4byte :: "32 word \<Rightarrow> nat \<Rightarrow> byte" where
  [go_defs]: "v4byte w i = ucast (drop_bit (8 * (3 - i)) w)"

definition v6byte :: "128 word \<Rightarrow> nat \<Rightarrow> byte" where
  [go_defs]: "v6byte w i = ucast (drop_bit (8 * (15 - i)) w)"

definition v6u16 :: "128 word \<Rightarrow> nat \<Rightarrow> 16 word" where
  [go_defs]: "v6u16 w i = ucast (drop_bit (16 * (7 - i)) w)"

section \<open>Address classes\<close>

text \<open>Each predicate looks through an IPv4-mapped address first.\<close>

fun loopback1 :: "Addr \<Rightarrow> bool" where
  "loopback1 (V4 w) = (v4byte w 0 = 127)"
| "loopback1 (V6 w _) = (w = 1)"
| "loopback1 AddrZero = False"

definition IsLoopback :: "Addr \<Rightarrow> bool" where
  "IsLoopback a = loopback1 (Unmap a)"

fun private1 :: "Addr \<Rightarrow> bool" where
  "private1 (V4 w) = (v4byte w 0 = 10
      \<or> (v4byte w 0 = 172 \<and> v4byte w 1 AND 0xf0 = 16)
      \<or> (v4byte w 0 = 192 \<and> v4byte w 1 = 168))"
| "private1 (V6 w _) = (v6byte w 0 AND 0xfe = 0xfc)"
| "private1 AddrZero = False"

definition IsPrivate :: "Addr \<Rightarrow> bool" where
  "IsPrivate a = private1 (Unmap a)"

definition IsUnspecified :: "Addr \<Rightarrow> bool" where
  "IsUnspecified a \<longleftrightarrow> a = V4 0 \<or> a = V6 0 []"

fun linklocal1 :: "Addr \<Rightarrow> bool" where
  "linklocal1 (V4 w) = (v4byte w 0 = 169 \<and> v4byte w 1 = 254)"
| "linklocal1 (V6 w _) = (v6u16 w 0 AND 0xffc0 = 0xfe80)"
| "linklocal1 AddrZero = False"

definition IsLinkLocalUnicast :: "Addr \<Rightarrow> bool" where
  "IsLinkLocalUnicast a = linklocal1 (Unmap a)"

fun linklocalmc1 :: "Addr \<Rightarrow> bool" where
  "linklocalmc1 (V4 w) = (v4byte w 0 = 224 \<and> v4byte w 1 = 0 \<and> v4byte w 2 = 0)"
| "linklocalmc1 (V6 w _) = (v6u16 w 0 AND 0xff0f = 0xff02)"
| "linklocalmc1 AddrZero = False"

definition IsLinkLocalMulticast :: "Addr \<Rightarrow> bool" where
  "IsLinkLocalMulticast a = linklocalmc1 (Unmap a)"

fun multicast1 :: "Addr \<Rightarrow> bool" where
  "multicast1 (V4 w) = (v4byte w 0 AND 0xf0 = 0xe0)"
| "multicast1 (V6 w _) = (v6byte w 0 = 0xff)"
| "multicast1 AddrZero = False"

definition IsMulticast :: "Addr \<Rightarrow> bool" where
  "IsMulticast a = multicast1 (Unmap a)"

section \<open>Prefixes\<close>

datatype Prefix = Prefix (pfx_addr: Addr) (pfx_bits: nat)

definition Prefix_IsValid :: "Prefix \<Rightarrow> bool" where
  "Prefix_IsValid p \<longleftrightarrow> Addr_IsValid (pfx_addr p) \<and> pfx_bits p \<le> BitLen (pfx_addr p)"

text \<open>\<open>Prefix.Contains\<close>: same family, no zone, equal leading bits.\<close>

fun same_bits :: "Addr \<Rightarrow> Addr \<Rightarrow> nat \<Rightarrow> bool" where
  "same_bits (V4 p) (V4 a) n = (drop_bit (32 - n) (a XOR p) = 0)"
| "same_bits (V6 p _) (V6 a _) n = ((a XOR p) AND NOT (mask (128 - n)) = 0)"
| "same_bits _ _ _ = False"

definition Prefix_Contains :: "Prefix \<Rightarrow> Addr \<Rightarrow> bool" where
  "Prefix_Contains p a \<longleftrightarrow>
     Prefix_IsValid p \<and> Addr_Zone a = [] \<and> same_bits (pfx_addr p) a (pfx_bits p)"

text \<open>\<open>Prefix.Masked\<close>: the host bits cleared.\<close>

fun Masked :: "Prefix \<Rightarrow> Prefix" where
  "Masked (Prefix (V4 w) n) = Prefix (V4 (w AND NOT (mask (32 - n)))) n"
| "Masked (Prefix (V6 w z) n) = Prefix (V6 (w AND NOT (mask (128 - n))) []) n"
| "Masked (Prefix AddrZero n) = Prefix AddrZero n"

section \<open>Parsing\<close>

definition word_of_bytes :: "nat list \<Rightarrow> 'a::len word" where
  [go_defs]: "word_of_bytes bs = foldl (\<lambda>a b. a * 256 + of_nat b) 0 bs"

text \<open>The loop of \<open>parseIPv4Fields\<close>: \<open>dot\<close> says that the previous byte was a dot or that this is the
  first one, \<open>fs\<close> are the finished octets.\<close>

fun parse4_loop :: "string \<Rightarrow> bool \<Rightarrow> nat \<Rightarrow> nat \<Rightarrow> nat list \<Rightarrow> nat list option" where
  "parse4_loop [] dot val digLen fs = (if length fs < 3 then None else Some (fs @ [val]))"
| "parse4_loop (c # s) dot val digLen fs =
     (if is_digit c then
        (if digLen = 1 \<and> val = 0 then None
         else let v = val * 10 + digit_val c in
              if v > 255 then None else parse4_loop s False v (Suc digLen) fs)
      else if c = CHR ''.'' then
        (if dot \<or> s = [] then None
         else if length fs = 3 then None
         else parse4_loop s True 0 0 (fs @ [val]))
      else None)"

definition parseIPv4Fields :: "string \<Rightarrow> nat list option" where
  [go_defs]: "parseIPv4Fields s = parse4_loop s True 0 0 []"

definition parseIPv4 :: "string \<Rightarrow> Addr option" where
  [go_defs]: "parseIPv4 s = map_option (\<lambda>fs. V4 (word_of_bytes fs)) (parseIPv4Fields s)"

definition hex_val :: "char \<Rightarrow> nat option" where
  [go_defs]: "hex_val c =
     (let n = (of_char c :: nat) in
      if 48 \<le> n \<and> n \<le> 57 then Some (n - 48)
      else if 97 \<le> n \<and> n \<le> 102 then Some (n - 87)
      else if 65 \<le> n \<and> n \<le> 70 then Some (n - 55)
      else None)"

text \<open>The inner loop of \<open>parseIPv6\<close>: the number of hex digits read, their value, the rest.\<close>

fun scan_hex :: "string \<Rightarrow> nat \<Rightarrow> nat \<Rightarrow> (nat \<times> nat \<times> string) option" where
  "scan_hex [] off acc = Some (off, acc, [])"
| "scan_hex (c # s) off acc =
     (case hex_val c of
        None \<Rightarrow> Some (off, acc, c # s)
      | Some d \<Rightarrow>
          if off > 3 then None
          else if 16 * acc + d > 0xffff then None
          else scan_hex s (Suc off) (16 * acc + d))"

text \<open>The outer loop: the rest of the text, the bytes so far, the place of the ellipsis.\<close>

function parse6_loop :: "string \<Rightarrow> nat list \<Rightarrow> nat option \<Rightarrow> (string \<times> nat list \<times> nat option) option" where
  "parse6_loop s ip ell =
     (if length ip < 16 then
        (case scan_hex s 0 0 of
           None \<Rightarrow> None
         | Some (off, acc, rest) \<Rightarrow>
             if off = 0 then None
             else if rest \<noteq> [] \<and> hd rest = CHR ''.'' then
               (if ell = None \<and> length ip \<noteq> 12 then None
                else if length ip + 4 > 16 then None
                else map_option (\<lambda>fs. ([], ip @ fs, ell)) (parseIPv4Fields s))
             else
               (let ip' = ip @ [acc div 256, acc mod 256] in
                case rest of
                  [] \<Rightarrow> Some ([], ip', ell)
                | c # t \<Rightarrow>
                    if c \<noteq> CHR '':'' then None
                    else if t = [] then None
                    else if hd t = CHR '':'' then
                      (if ell \<noteq> None then None
                       else if tl t = [] then Some ([], ip', Some (length ip'))
                       else parse6_loop (tl t) ip' (Some (length ip')))
                    else parse6_loop t ip' ell))
      else Some (s, ip, ell))"
  by pat_completeness auto
termination
  by (relation "measure (\<lambda>(s, ip, ell). 16 - length ip)") auto

declare parse6_loop.simps [simp del]

text \<open>The end of \<open>parseIPv6\<close>: nothing left over, and the ellipsis expanded to 16 bytes.\<close>

definition parse6_finish :: "string \<Rightarrow> nat list \<Rightarrow> nat option \<Rightarrow> nat list option" where
  [go_defs]: "parse6_finish s ip ell =
     (if s \<noteq> [] then None
      else if length ip < 16 then
        (case ell of
           None \<Rightarrow> None
         | Some e \<Rightarrow> Some (take e ip @ replicate (16 - length ip) 0 @ drop e ip))
      else if ell \<noteq> None then None
      else Some ip)"

definition parseIPv6_body :: "string \<Rightarrow> nat list option" where
  [go_defs]: "parseIPv6_body s =
     (if length s \<ge> 2 \<and> s ! 0 = CHR '':'' \<and> s ! 1 = CHR '':'' then
        (if length s = 2 then Some (replicate 16 0)
         else case parse6_loop (drop 2 s) [] (Some 0) of
                None \<Rightarrow> None
              | Some (t, ip, ell) \<Rightarrow> parse6_finish t ip ell)
      else case parse6_loop s [] None of
             None \<Rightarrow> None
           | Some (t, ip, ell) \<Rightarrow> parse6_finish t ip ell)"

definition parseIPv6 :: "string \<Rightarrow> Addr option" where
  [go_defs]: "parseIPv6 s =
     (case IndexByte s (CHR ''%'') of
        None \<Rightarrow> map_option (\<lambda>ip. V6 (word_of_bytes ip) []) (parseIPv6_body s)
      | Some i \<Rightarrow>
          let zone = drop (Suc i) s in
          if zone = [] then None
          else map_option (\<lambda>ip. V6 (word_of_bytes ip) zone) (parseIPv6_body (take i s)))"

text \<open>\<open>ParseAddr\<close>: the first of the bytes dot, colon and percent decides.\<close>

fun parse_kind :: "string \<Rightarrow> char option" where
  "parse_kind [] = None"
| "parse_kind (c # s) =
     (if c = CHR ''.'' \<or> c = CHR '':'' \<or> c = CHR ''%'' then Some c else parse_kind s)"

definition ParseAddr :: "string \<Rightarrow> Addr option" where
  [go_defs]: "ParseAddr s =
     (case parse_kind s of
        None \<Rightarrow> None
      | Some c \<Rightarrow> if c = CHR ''.'' then parseIPv4 s
                 else if c = CHR '':'' then parseIPv6 s
                 else None)"

definition ParsePrefix :: "string \<Rightarrow> Prefix option" where
  [go_defs]: "ParsePrefix s =
     (case LastIndexByte s (CHR ''/'') of
        None \<Rightarrow> None
      | Some i \<Rightarrow>
          (case ParseAddr (take i s) of
             None \<Rightarrow> None
           | Some ip \<Rightarrow>
               if Addr_Is6 ip \<and> Addr_Zone ip \<noteq> [] then None
               else let b = drop (Suc i) s in
                 if length b > 1 \<and> \<not> (CHR ''1'' \<le> hd b \<and> hd b \<le> CHR ''9'') then None
                 else (case Atoi b of
                         None \<Rightarrow> None
                       | Some n \<Rightarrow>
                           if n < 0 \<or> n > int (BitLen ip) then None
                           else Some (Prefix ip (nat n)))))"

section \<open>Address and port\<close>

datatype AddrPort = AddrPort (ap_addr: Addr) (ap_port: port)

definition AddrPort_IsValid :: "AddrPort \<Rightarrow> bool" where
  [go_defs]: "AddrPort_IsValid p = Addr_IsValid (ap_addr p)"

text \<open>\<open>splitAddrPort\<close>: the address text, the port text, and whether there were brackets.\<close>

definition splitAddrPort :: "string \<Rightarrow> (string \<times> string \<times> bool) option" where
  [go_defs]: "splitAddrPort s =
     (case LastIndexByte s (CHR '':'') of
        None \<Rightarrow> None
      | Some i \<Rightarrow>
          let ip = take i s; p = drop (Suc i) s in
          if ip = [] then None
          else if p = [] then None
          else if hd ip = CHR ''['' then
            (if length ip < 2 \<or> last ip \<noteq> CHR '']'' then None
             else Some (butlast (tl ip), p, True))
          else Some (ip, p, False))"

definition ParseAddrPort :: "string \<Rightarrow> AddrPort option" where
  [go_defs]: "ParseAddrPort s =
     (case splitAddrPort s of
        None \<Rightarrow> None
      | Some (ip, p, v6) \<Rightarrow>
          (case ParseUint p 16 of
             None \<Rightarrow> None
           | Some n \<Rightarrow>
               (case ParseAddr ip of
                  None \<Rightarrow> None
                | Some a \<Rightarrow>
                    if v6 \<and> Addr_Is4 a then None
                    else if \<not> v6 \<and> Addr_Is6 a then None
                    else Some (AddrPort a (of_nat n)))))"

text \<open>The \<open>Must\<close> parsers panic on an error. The model returns the zero value there, and each use in a
  package variable comes with a lemma that its text parses, so that the panic is not reached.\<close>

definition MustParseAddr :: "string \<Rightarrow> Addr" where
  "MustParseAddr s = (case ParseAddr s of Some a \<Rightarrow> a | None \<Rightarrow> AddrZero)"

definition MustParsePrefix :: "string \<Rightarrow> Prefix" where
  "MustParsePrefix s = (case ParsePrefix s of Some p \<Rightarrow> p | None \<Rightarrow> Prefix AddrZero 0)"

definition MustParseAddrPort :: "string \<Rightarrow> AddrPort" where
  "MustParseAddrPort s = (case ParseAddrPort s of Some p \<Rightarrow> p | None \<Rightarrow> AddrPort AddrZero 0)"

section \<open>Printing\<close>

definition appendTo4 :: "32 word \<Rightarrow> string" where
  [go_defs]: "appendTo4 w = Itoa (unat (v4byte w 0)) @ ''.'' @ Itoa (unat (v4byte w 1)) @ ''.'' @
     Itoa (unat (v4byte w 2)) @ ''.'' @ Itoa (unat (v4byte w 3))"

definition hex_digit :: "nat \<Rightarrow> char" where
  [go_defs]: "hex_digit n = (if n < 10 then char_of (48 + n) else char_of (87 + n))"

fun appendHex :: "nat \<Rightarrow> string" where
  "appendHex n = (if n < 16 then [hex_digit n] else appendHex (n div 16) @ [hex_digit (n mod 16)])"

declare appendHex.simps [simp del]

text \<open>The run of zero groups that \<open>appendTo6\<close> replaces: the first longest one of two or more.\<close>

definition zero_len :: "nat list \<Rightarrow> nat" where
  [go_defs]: "zero_len ws = length (takeWhile (\<lambda>w. w = 0) ws)"

fun best_run :: "nat list \<Rightarrow> nat \<Rightarrow> nat \<times> nat \<Rightarrow> nat \<times> nat" where
  "best_run [] i best = best"
| "best_run (w # ws) i (st, ln) =
     (let l = zero_len (w # ws) in
      best_run ws (Suc i) (if l \<ge> 2 \<and> l > ln then (i, l) else (st, ln)))"

fun join_groups :: "string list \<Rightarrow> string" where
  "join_groups [] = []"
| "join_groups [g] = g"
| "join_groups (g # gs) = g @ '':'' @ join_groups gs"

definition groups6 :: "128 word \<Rightarrow> nat list" where
  [go_defs]: "groups6 w = map (\<lambda>i. unat (v6u16 w i)) [0..<8]"

definition appendTo6 :: "128 word \<Rightarrow> string" where
  [go_defs]: "appendTo6 w =
     (let gs = groups6 w; (st, ln) = best_run gs 0 (0, 0) in
      if ln = 0 then join_groups (map appendHex gs)
      else join_groups (map appendHex (take st gs)) @ ''::'' @
           join_groups (map appendHex (drop (st + ln) gs)))"

definition zone_suffix :: "string \<Rightarrow> string" where
  [go_defs]: "zone_suffix z = (if z = [] then [] else ''%'' @ z)"

fun Addr_String :: "Addr \<Rightarrow> string" where
  "Addr_String AddrZero = ''invalid IP''"
| "Addr_String (V4 w) = appendTo4 w"
| "Addr_String (V6 w z) =
     (if Is4In6 (V6 w z) then ''::ffff:'' @ appendTo4 (ucast w) @ zone_suffix z
      else appendTo6 w @ zone_suffix z)"

fun AddrPort_String :: "AddrPort \<Rightarrow> string" where
  "AddrPort_String (AddrPort AddrZero p) = ''invalid AddrPort''"
| "AddrPort_String (AddrPort (V4 w) p) = appendTo4 w @ '':'' @ Itoa (unat p)"
| "AddrPort_String (AddrPort (V6 w z) p) =
     ''['' @ Addr_String (V6 w z) @ '']:'' @ Itoa (unat p)"

definition Prefix_String :: "Prefix \<Rightarrow> string" where
  [go_defs]: "Prefix_String p =
     (if Prefix_IsValid p then Addr_String (pfx_addr p) @ ''/'' @ Itoa (pfx_bits p)
      else ''invalid Prefix'')"

section \<open>Facts\<close>

lemma Unmap_idem [simp, addr_simps]: "Unmap (Unmap a) = Unmap a"
  by (cases a) auto

lemma Unmap_valid [simp, addr_simps]: "Addr_IsValid (Unmap a) = Addr_IsValid a"
  by (cases a) auto

lemma Unmap_not_mapped [simp]: "\<not> Is4In6 (Unmap a)"
  by (cases a) auto

lemma Unmap_V4_iff: "Unmap a = V4 w \<longleftrightarrow> a = V4 w \<or> (\<exists>v z. a = V6 v z \<and> Is4In6 a \<and> w = ucast v)"
  by (cases a) auto

lemma v4byte_unat: "unat (v4byte w i) = unat w div 2 ^ (8 * (3 - i)) mod 256"
  by (simp add: v4byte_def unat_ucast_mod unat_drop_div)

lemma v6byte_unat: "unat (v6byte w i) = unat w div 2 ^ (8 * (15 - i)) mod 256"
  by (simp add: v6byte_def unat_ucast_mod unat_drop_div)

lemma v6u16_unat: "unat (v6u16 w i) = unat w div 2 ^ (16 * (7 - i)) mod 65536"
  by (simp add: v6u16_def unat_ucast_mod unat_drop_div)

text \<open>A prefix match is an equality of quotients: the family is the same, the address has no zone,
  and the addresses agree above the host bits.\<close>

lemma Contains_V4 [addr_simps]:
  "Prefix_Contains (Prefix (V4 p) n) (V4 a) \<longleftrightarrow>
     n \<le> 32 \<and> unat a div 2 ^ (32 - n) = unat p div 2 ^ (32 - n)"
  by (simp add: Prefix_Contains_def Prefix_IsValid_def same_prefix_bits del: drop_bit_xor)

lemma Contains_V6 [addr_simps]:
  "Prefix_Contains (Prefix (V6 p z') n) (V6 a z) \<longleftrightarrow>
     n \<le> 128 \<and> z = [] \<and> unat a div 2 ^ (128 - n) = unat p div 2 ^ (128 - n)"
  by (auto simp: Prefix_Contains_def Prefix_IsValid_def word_and_not_mask_eq_0 same_prefix_bits
      simp del: drop_bit_xor)

lemma Contains_other_family [addr_simps]:
  "\<not> Prefix_Contains (Prefix (V4 p) n) (V6 a z)"
  "\<not> Prefix_Contains (Prefix (V6 q z') n) (V4 b)"
  "\<not> Prefix_Contains p' AddrZero"
  by (cases "pfx_addr p'") (auto simp: Prefix_Contains_def)

lemma Contains_zero_prefix [addr_simps]: "\<not> Prefix_Contains (Prefix AddrZero n) a"
  by (cases a) (auto simp: Prefix_Contains_def Prefix_IsValid_def)

lemma unat_and_not_mask_div: "unat ((w :: 'a::len word) AND NOT (mask n)) div 2 ^ n = unat w div 2 ^ n"
  by (metis drop_bit_and_not_mask unat_drop_div)

text \<open>Clearing the host bits of a prefix does not change what it contains.\<close>

lemma Contains_Masked [simp, addr_simps]: "Prefix_Contains (Masked p) a = Prefix_Contains p a"
proof (cases p)
  case (Prefix b n)
  then show ?thesis
    by (cases b; cases a) (auto simp: addr_simps unat_and_not_mask_div)
qed

end
