(* ===== verification/Go_Url.thy ===== *)
theory Go_Url
  imports Go_Netip
begin

text \<open>
  What the program uses of Go's package \<^verbatim>\<open>net/url\<close>, as in the release the module names: \<open>Parse\<close>, with the
  scheme, the user, the host and the path it finds. The query and the fragment are cut off; a fragment
  must unescape. An error is \<^const>\<open>None\<close>.
\<close>

section \<open>Escapes\<close>

datatype encoding = EncHost | EncZone | EncOther

definition hex_val :: "char \<Rightarrow> nat option" where
  [go_defs]: "hex_val c =
     (let n = (of_char c :: nat) in
      if 48 \<le> n \<and> n \<le> 57 then Some (n - 48)
      else if 97 \<le> n \<and> n \<le> 102 then Some (n - 87)
      else if 65 \<le> n \<and> n \<le> 70 then Some (n - 55)
      else None)"

definition is_alnum :: "char \<Rightarrow> bool" where
  [go_defs]: "is_alnum c \<longleftrightarrow>
     (let n = (of_char c :: nat) in 48 \<le> n \<and> n \<le> 57 \<or> 65 \<le> n \<and> n \<le> 90 \<or> 97 \<le> n \<and> n \<le> 122)"

text \<open>The bytes that stand for themselves in a host or a zone; the last two are the quotes.\<close>

definition host_byte :: "char \<Rightarrow> bool" where
  [go_defs]: "host_byte c \<longleftrightarrow> is_alnum c \<or> c \<in> set ''!$&()*+,;=:[]<>-_.~'' \<or> c = CHR 0x27 \<or> c = CHR 0x22"

text \<open>The checks on an escape of the value \<open>16 * a + b\<close>, by mode: in a host only \<^verbatim>\<open>%25\<close> and bytes from 128 on
  may be escaped; in a zone the byte may not be one that a host would have to escape, blank apart.\<close>

fun escape_ok :: "encoding \<Rightarrow> nat \<Rightarrow> nat \<Rightarrow> bool" where
  "escape_ok EncHost a b \<longleftrightarrow> 8 \<le> a \<or> a = 2 \<and> b = 5"
| "escape_ok EncZone a b \<longleftrightarrow> a = 2 \<and> b = 5 \<or> 16 * a + b = 32 \<or> host_byte (char_of (16 * a + b))"
| "escape_ok EncOther a b \<longleftrightarrow> True"

fun byte_ok :: "encoding \<Rightarrow> char \<Rightarrow> bool" where
  "byte_ok EncOther c \<longleftrightarrow> True"
| "byte_ok _ c \<longleftrightarrow> 128 \<le> (of_char c :: nat) \<or> host_byte c"

function unescape :: "encoding \<Rightarrow> string \<Rightarrow> string option" where
  "unescape mode s =
     (case s of
        [] \<Rightarrow> Some []
      | c # t \<Rightarrow>
          if c = CHR 0x25 then
            (case t of
               x # y # r \<Rightarrow>
                 (case (hex_val x, hex_val y) of
                    (Some a, Some b) \<Rightarrow>
                      if \<not> escape_ok mode a b then None
                      else map_option ((#) (char_of (16 * a + b))) (unescape mode r)
                  | _ \<Rightarrow> None)
             | _ \<Rightarrow> None)
          else if \<not> byte_ok mode c then None
          else map_option ((#) c) (unescape mode t))"
  by pat_completeness auto
termination by (relation "measure (\<lambda>(m, s). length s)") auto

declare unescape.simps [simp del]

lemma unescape_Nil [simp]: "unescape mode [] = Some []"
  by (subst unescape.simps) simp

lemma unescape_plain [simp]:
  "c \<noteq> CHR 0x25 \<Longrightarrow> unescape mode (c # s) = (if byte_ok mode c then map_option ((#) c) (unescape mode s) else None)"
  by (subst unescape.simps) simp

text \<open>A text without escapes, of bytes the mode takes, stands for itself.\<close>

lemma unescape_same: "CHR 0x25 \<notin> set s \<Longrightarrow> list_all (byte_ok mode) s \<Longrightarrow> unescape mode s = Some s"
  by (induction s) auto

section \<open>The authority\<close>

definition validOptionalPort :: "string \<Rightarrow> bool" where
  [go_defs]: "validOptionalPort port \<longleftrightarrow> port = [] \<or> hd port = CHR '':'' \<and> list_all is_digit (tl port)"

definition validUserinfo :: "string \<Rightarrow> bool" where
  [go_defs]: "validUserinfo s \<longleftrightarrow>
     list_all (\<lambda>c. is_alnum c \<or> c \<in> set ''-._:~!$&()*+,;='' \<or> c \<in> {CHR 0x27, CHR 0x25, CHR 0x40}) s"

text \<open>The host of an IP literal in brackets must be an IPv6 address.\<close>

definition parse_bracketed :: "string \<Rightarrow> nat \<Rightarrow> string option" where
  [go_defs]: "parse_bracketed host openIdx =
     (case LastIndexByte host (CHR '']'') of
        None \<Rightarrow> None
      | Some closeIdx \<Rightarrow>
          let colonPort = drop (Suc closeIdx) host;
              hostname = drop (Suc openIdx) (take closeIdx host)
          in if \<not> validOptionalPort colonPort then None
             else
               (case (unescape EncHost colonPort,
                      case Index hostname [CHR 0x25, CHR ''2'', CHR ''5''] of
                        Some z \<Rightarrow>
                          (case (unescape EncHost (take z hostname), unescape EncZone (drop z hostname)) of
                             (Some h, Some zone) \<Rightarrow> Some (h @ zone)
                           | _ \<Rightarrow> None)
                      | None \<Rightarrow> unescape EncHost hostname) of
                  (Some p, Some h) \<Rightarrow>
                    (case ParseAddr h of
                       None \<Rightarrow> None
                     | Some addr \<Rightarrow> if Addr_Is4 addr then None else Some (''['' @ h @ '']'' @ p))
                | _ \<Rightarrow> None))"

definition parseHost :: "string \<Rightarrow> string option" where
  [go_defs]: "parseHost host =
     (case LastIndexByte host (CHR ''['') of
        Some i \<Rightarrow> parse_bracketed host i
      | None \<Rightarrow>
          (case LastIndexByte host (CHR '':'') of
             Some i \<Rightarrow> if \<not> validOptionalPort (drop i host) then None else unescape EncHost host
           | None \<Rightarrow> unescape EncHost host))"

text \<open>The user and its password, both empty when the URL has none.\<close>

definition parse_userinfo :: "string \<Rightarrow> (string \<times> string) option" where
  [go_defs]: "parse_userinfo s =
     (if \<not> validUserinfo s then None
      else case IndexByte s (CHR '':'') of
             None \<Rightarrow> map_option (\<lambda>u. (u, [])) (unescape EncOther s)
           | Some i \<Rightarrow>
               (case (unescape EncOther (take i s), unescape EncOther (drop (Suc i) s)) of
                  (Some u, Some p) \<Rightarrow> Some (u, p)
                | _ \<Rightarrow> None))"

definition parseAuthority :: "string \<Rightarrow> ((string \<times> string) \<times> string) option" where
  [go_defs]: "parseAuthority authority =
     (case LastIndexByte authority (CHR 0x40) of
        None \<Rightarrow> map_option (\<lambda>h. (([], []), h)) (parseHost authority)
      | Some i \<Rightarrow>
          (case parseHost (drop (Suc i) authority) of
             None \<Rightarrow> None
           | Some h \<Rightarrow> map_option (\<lambda>u. (u, h)) (parse_userinfo (take i authority))))"

section \<open>Parse\<close>

record URL =
  url_Scheme :: string
  url_User :: "string \<times> string"
  url_Host :: string
  url_Path :: string

text \<open>The scheme and the rest; no scheme when a byte that cannot be in one comes first, an error when the
  colon does.\<close>

fun scheme_loop :: "bool \<Rightarrow> string \<Rightarrow> string \<Rightarrow> string \<Rightarrow> (string \<times> string) option" where
  "scheme_loop start acc raw [] = Some ([], raw)"
| "scheme_loop start acc raw (c # s) =
     (if is_alnum c \<and> \<not> is_digit c then scheme_loop False (acc @ [c]) raw s
      else if is_digit c \<or> c \<in> {CHR ''+'', CHR ''-'', CHR ''.''} then
        (if start then Some ([], raw) else scheme_loop False (acc @ [c]) raw s)
      else if c = CHR '':'' then (if start then None else Some (acc, s))
      else Some ([], raw))"

definition getScheme :: "string \<Rightarrow> (string \<times> string) option" where
  [go_defs]: "getScheme raw = scheme_loop True [] raw raw"

definition cut_at :: "char \<Rightarrow> string \<Rightarrow> string \<times> string" where
  [go_defs]: "cut_at c s = (case IndexByte s c of None \<Rightarrow> (s, []) | Some i \<Rightarrow> (take i s, drop (Suc i) s))"

definition is_ctl :: "char \<Rightarrow> bool" where
  [go_defs]: "is_ctl c \<longleftrightarrow> (of_char c :: nat) < 32 \<or> (of_char c :: nat) = 127"

text \<open>The part of \<open>parse\<close> after the scheme and without the query.\<close>

definition parse_rest :: "string \<Rightarrow> string \<Rightarrow> URL option" where
  [go_defs]: "parse_rest scheme rest =
     (if \<not> HasPrefix rest ''/'' then
        (if scheme \<noteq> [] then Some \<lparr>url_Scheme = scheme, url_User = ([], []), url_Host = [], url_Path = []\<rparr>
         else if CHR '':'' \<in> set (fst (cut_at (CHR ''/'') rest)) then None
         else map_option (\<lambda>p. \<lparr>url_Scheme = [], url_User = ([], []), url_Host = [], url_Path = p\<rparr>) (unescape EncOther rest))
      else if (scheme \<noteq> [] \<or> \<not> HasPrefix rest ''///'') \<and> HasPrefix rest ''//'' then
        (let a = drop 2 rest;
             (authority, path) = (case IndexByte a (CHR ''/'') of None \<Rightarrow> (a, []) | Some i \<Rightarrow> (take i a, drop i a))
         in case parseAuthority authority of
              None \<Rightarrow> None
            | Some (user, host) \<Rightarrow>
                map_option (\<lambda>p. \<lparr>url_Scheme = scheme, url_User = user, url_Host = host, url_Path = p\<rparr>) (unescape EncOther path))
      else map_option (\<lambda>p. \<lparr>url_Scheme = scheme, url_User = ([], []), url_Host = [], url_Path = p\<rparr>) (unescape EncOther rest))"

definition url_Parse :: "string \<Rightarrow> URL option" where
  [go_defs]: "url_Parse rawURL =
     (let (u, frag) = cut_at (CHR 0x23) rawURL in
      if list_ex is_ctl u then None
      else if unescape EncOther frag = None then None
      else if u = ''*'' then Some \<lparr>url_Scheme = [], url_User = ([], []), url_Host = [], url_Path = ''*''\<rparr>
      else case getScheme u of
             None \<Rightarrow> None
           | Some (scheme, rest) \<Rightarrow> parse_rest (ToLower scheme) (fst (cut_at (CHR 0x3F) rest)))"

section \<open>URLs of proxies\<close>

lemma scheme_loop_word:
  assumes "list_all (\<lambda>c. is_alnum c \<or> c \<in> {CHR ''+'', CHR ''-'', CHR ''.''}) w"
  shows "scheme_loop False acc raw (w @ CHR '':'' # r) = Some (acc @ w, r)"
  using assms by (induction w arbitrary: acc) (auto simp: is_alnum_def is_digit_def Let_def)

lemma IndexByte_notin: "c \<notin> set s \<Longrightarrow> IndexByte s c = None"
  by (induction s) auto

lemma IndexByte_append: "c \<notin> set s \<Longrightarrow> IndexByte (s @ c # t) c = Some (length s)"
  by (induction s) auto

lemma cut_at_notin [simp]: "c \<notin> set s \<Longrightarrow> cut_at c s = (s, [])"
  by (simp add: cut_at_def IndexByte_notin)

end
