(* ===== verification/Net_Addr.thy ===== *)
theory Net_Addr
  imports Go_Netip
begin

unbundle bit_operations_syntax

text \<open>
  Package \<^verbatim>\<open>internal/netaddr\<close>: the well-known gateway addresses and the reserved-address test.
  The package variables are the parsed texts of the source; the lemmas below give their values, so
  that package initialisation does not panic. \<open>IsReserved\<close> is then characterised by the address
  ranges it covers, for each family.
\<close>

section \<open>Well-known addresses\<close>

definition GatewayIPv4 :: Addr where
  "GatewayIPv4 = MustParseAddr ''198.18.0.1''"

definition PrefixIPv4 :: Prefix where
  "PrefixIPv4 = MustParsePrefix ''198.18.0.1/30''"

definition GatewayIPv6 :: Addr where
  "GatewayIPv6 = MustParseAddr ''fdfe:dcba:9876::1''"

definition PrefixIPv6 :: Prefix where
  "PrefixIPv6 = MustParsePrefix ''fdfe:dcba:9876::1/126''"

definition DefaultUpstreamDNS :: AddrPort where
  "DefaultUpstreamDNS = MustParseAddrPort ''8.8.8.8:53''"

section \<open>Reserved addresses\<close>

definition reserved_raw :: "string list" where
  "reserved_raw =
    [''0.0.0.0/8'',
     ''100.64.0.0/10'',
     ''192.0.0.0/24'',
     ''192.0.2.0/24'',
     ''198.18.0.0/15'',
     ''198.51.100.0/24'',
     ''203.0.113.0/24'',
     ''240.0.0.0/4'',
     ''255.255.255.255/32'',
     ''::ffff:0:0/96'',
     ''64:ff9b::/96'',
     ''100::/64'',
     ''2001::/23'',
     ''2002::/16'']"

definition reservedPrefixes :: "Prefix list" where
  "reservedPrefixes = map MustParsePrefix reserved_raw"

definition IsReserved :: "Addr \<Rightarrow> bool" where
  "IsReserved addr0 =
     (let addr = Unmap addr0 in
      if \<not> Addr_IsValid addr then False
      else if IsLoopback addr \<or> IsPrivate addr \<or> IsUnspecified addr \<or>
              IsLinkLocalUnicast addr \<or> IsLinkLocalMulticast addr \<or> IsMulticast addr then True
      else list_ex (\<lambda>p. Prefix_Contains p addr) reservedPrefixes)"

section \<open>The values of the package variables\<close>

lemma ParseAddr_gateway4: "ParseAddr ''198.18.0.1'' = Some (V4 0xC6120001)"
  by (simp add: go_defs)

lemma ParseAddr_gateway6:
  "ParseAddr ''fdfe:dcba:9876::1'' = Some (V6 0xfdfedcba987600000000000000000001 [])"
  by (simp add: go_defs parse6_loop.simps)

lemma ParsePrefix_gateway4: "ParsePrefix ''198.18.0.1/30'' = Some (Prefix (V4 0xC6120001) 30)"
  by (simp add: go_defs)

lemma ParsePrefix_gateway6:
  "ParsePrefix ''fdfe:dcba:9876::1/126'' = Some (Prefix (V6 0xfdfedcba987600000000000000000001 []) 126)"
  by (simp add: go_defs parse6_loop.simps)

lemma ParseAddrPort_default_dns: "ParseAddrPort ''8.8.8.8:53'' = Some (AddrPort (V4 0x08080808) 53)"
  by (simp add: go_defs)

lemma GatewayIPv4_value [simp]: "GatewayIPv4 = V4 0xC6120001"
  by (simp add: GatewayIPv4_def MustParseAddr_def ParseAddr_gateway4)

lemma GatewayIPv6_value [simp]: "GatewayIPv6 = V6 0xfdfedcba987600000000000000000001 []"
  by (simp add: GatewayIPv6_def MustParseAddr_def ParseAddr_gateway6)

lemma PrefixIPv4_value [simp]: "PrefixIPv4 = Prefix (V4 0xC6120001) 30"
  by (simp add: PrefixIPv4_def MustParsePrefix_def ParsePrefix_gateway4)

lemma PrefixIPv6_value [simp]: "PrefixIPv6 = Prefix (V6 0xfdfedcba987600000000000000000001 []) 126"
  by (simp add: PrefixIPv6_def MustParsePrefix_def ParsePrefix_gateway6)

lemma DefaultUpstreamDNS_value [simp]: "DefaultUpstreamDNS = AddrPort (V4 0x08080808) 53"
  by (simp add: DefaultUpstreamDNS_def MustParseAddrPort_def ParseAddrPort_default_dns)

lemma ParsePrefix_reserved4:
  "ParsePrefix ''0.0.0.0/8'' = Some (Prefix (V4 0) 8)"
  "ParsePrefix ''100.64.0.0/10'' = Some (Prefix (V4 0x64400000) 10)"
  "ParsePrefix ''192.0.0.0/24'' = Some (Prefix (V4 0xC0000000) 24)"
  "ParsePrefix ''192.0.2.0/24'' = Some (Prefix (V4 0xC0000200) 24)"
  "ParsePrefix ''198.18.0.0/15'' = Some (Prefix (V4 0xC6120000) 15)"
  "ParsePrefix ''198.51.100.0/24'' = Some (Prefix (V4 0xC6336400) 24)"
  "ParsePrefix ''203.0.113.0/24'' = Some (Prefix (V4 0xCB007100) 24)"
  "ParsePrefix ''240.0.0.0/4'' = Some (Prefix (V4 0xF0000000) 4)"
  "ParsePrefix ''255.255.255.255/32'' = Some (Prefix (V4 0xFFFFFFFF) 32)"
  by (simp_all add: go_defs)

lemma ParsePrefix_reserved6:
  "ParsePrefix ''::ffff:0:0/96'' = Some (Prefix (V6 0xffff00000000 []) 96)"
  "ParsePrefix ''64:ff9b::/96'' = Some (Prefix (V6 0x0064ff9b000000000000000000000000 []) 96)"
  "ParsePrefix ''100::/64'' = Some (Prefix (V6 0x01000000000000000000000000000000 []) 64)"
  "ParsePrefix ''2001::/23'' = Some (Prefix (V6 0x20010000000000000000000000000000 []) 23)"
  "ParsePrefix ''2002::/16'' = Some (Prefix (V6 0x20020000000000000000000000000000 []) 16)"
  by (simp_all add: go_defs parse6_loop.simps)

lemma reservedPrefixes_value:
  "reservedPrefixes =
    [Prefix (V4 0) 8, Prefix (V4 0x64400000) 10, Prefix (V4 0xC0000000) 24,
     Prefix (V4 0xC0000200) 24, Prefix (V4 0xC6120000) 15, Prefix (V4 0xC6336400) 24,
     Prefix (V4 0xCB007100) 24, Prefix (V4 0xF0000000) 4, Prefix (V4 0xFFFFFFFF) 32,
     Prefix (V6 0xffff00000000 []) 96, Prefix (V6 0x0064ff9b000000000000000000000000 []) 96,
     Prefix (V6 0x01000000000000000000000000000000 []) 64,
     Prefix (V6 0x20010000000000000000000000000000 []) 23,
     Prefix (V6 0x20020000000000000000000000000000 []) 16]"
  by (simp add: reservedPrefixes_def reserved_raw_def MustParsePrefix_def
      ParsePrefix_reserved4 ParsePrefix_reserved6)

section \<open>The address classes as ranges\<close>

lemma byte_and_f0: "(b :: byte) AND 0xf0 = p \<longleftrightarrow> unat b div 16 = unat p div 16" if "p AND 0xf0 = p"
proof -
  have "(0xf0 :: byte) = NOT (mask 4)" by (simp add: mask_eq_exp_minus_1)
  with that word_and_not_mask_eq [of p 4 b] show ?thesis by simp
qed

lemma byte_and_fe: "(b :: byte) AND 0xfe = p \<longleftrightarrow> unat b div 2 = unat p div 2" if "p AND 0xfe = p"
proof -
  have "(0xfe :: byte) = NOT (mask 1)" by simp
  with that word_and_not_mask_eq [of p 1 b] show ?thesis by (simp only: power_one_right)
qed

lemma u16_and_ffc0: "(b :: 16 word) AND 0xffc0 = p \<longleftrightarrow> unat b div 64 = unat p div 64" if "p AND 0xffc0 = p"
proof -
  have "(0xffc0 :: 16 word) = NOT (mask 6)" by (simp add: mask_eq_exp_minus_1)
  with that word_and_not_mask_eq [of p 6 b] show ?thesis by simp
qed

lemma v4bytes01:
  assumes "q < 256" "p < 256"
  shows "v4byte a 0 = of_nat p \<and> v4byte a (Suc 0) = of_nat q \<longleftrightarrow> unat a div 65536 = p * 256 + q"
  using unat32_bound [of a] div_digits [of 256 q "unat a" 65536 p] assms
  by (simp add: v4byte_unat word_eq_iff_unat unat_of_nat)

lemma v4bytes01hi:
  assumes "q < 16" "p < 256"
  shows "v4byte a 0 = of_nat p \<and> unat (v4byte a (Suc 0)) div 16 = q \<longleftrightarrow> unat a div 1048576 = p * 16 + q"
proof -
  have "y mod 256 div 16 = y div 16 mod (16 :: nat)" for y
    using mod_mult2_eq [of y 16 16] by simp
  then have "unat a div 65536 mod 256 div 16 = unat a div 1048576 mod 16"
    by (simp add: div_mult2_eq [of "unat a" 65536 16, simplified])
  then show ?thesis
    using unat32_bound [of a] div_digits [of 16 q "unat a" 1048576 p] assms
    by (simp add: v4byte_unat word_eq_iff_unat unat_of_nat)
qed


lemma loopback1_V4: "loopback1 (V4 a) \<longleftrightarrow> 0x7F000000 \<le> unat a \<and> unat a < 0x80000000"
  using unat32_bound [of a] by (simp add: word_eq_iff_unat v4byte_unat div_eq_interval)

lemma multicast1_V4: "multicast1 (V4 a) \<longleftrightarrow> 0xE0000000 \<le> unat a \<and> unat a < 0xF0000000"
  using unat32_bound [of a] by (simp add: byte_and_f0 v4byte_unat) arith

lemma linklocal1_V4: "linklocal1 (V4 a) \<longleftrightarrow> 0xA9FE0000 \<le> unat a \<and> unat a < 0xA9FF0000"
  using v4bytes01 [of 254 169 a] by (simp add: div_eq_interval)

lemma private1_V4: "private1 (V4 a) \<longleftrightarrow>
   (0x0A000000 \<le> unat a \<and> unat a < 0x0B000000) \<or> (0xAC100000 \<le> unat a \<and> unat a < 0xAC200000)
   \<or> (0xC0A80000 \<le> unat a \<and> unat a < 0xC0A90000)"
proof -
  have "v4byte a 0 = 10 \<longleftrightarrow> 0x0A000000 \<le> unat a \<and> unat a < 0x0B000000"
    using unat32_bound [of a] by (simp add: word_eq_iff_unat v4byte_unat div_eq_interval)
  moreover have "v4byte a 0 = 172 \<and> v4byte a (Suc 0) AND 0xf0 = 16 \<longleftrightarrow> 0xAC100000 \<le> unat a \<and> unat a < 0xAC200000"
    using v4bytes01hi [of 1 172 a] by (simp add: byte_and_f0 div_eq_interval)
  moreover have "v4byte a 0 = 192 \<and> v4byte a (Suc 0) = 168 \<longleftrightarrow> 0xC0A80000 \<le> unat a \<and> unat a < 0xC0A90000"
    using v4bytes01 [of 168 192 a] by (simp add: div_eq_interval)
  ultimately show ?thesis by simp
qed

lemma linklocalmc1_multicast1: "linklocalmc1 a \<Longrightarrow> multicast1 a"
proof (cases a)
  case (V6 w z)
  assume "linklocalmc1 a"
  with V6 have e: "v6u16 w 0 AND 0xff0f = 0xff02" by simp
  then have "drop_bit 8 (v6u16 w 0 AND 0xff0f) = drop_bit 8 (0xff02 :: 16 word)" by simp
  then have "drop_bit 8 (v6u16 w 0) AND 0xff = 0xff" by simp
  then have "drop_bit 8 (v6u16 w 0) AND mask 8 = 0xff" by (simp add: mask_eq_exp_minus_1)
  then have "take_bit 8 (drop_bit 8 (v6u16 w 0)) = 0xff" by (simp add: take_bit_eq_mask)
  then have "unat (take_bit 8 (drop_bit 8 (v6u16 w 0))) = 255" by simp
  then have "unat (v6u16 w 0) div 256 mod 256 = 255"
    by (simp only: unsigned_take_bit_eq unat_drop_div) (simp add: take_bit_eq_mod)
  then show ?thesis
    using unat128_bound [of w]
    by (simp add: V6 word_eq_iff_unat v6byte_unat v6u16_unat div_mult2_eq [symmetric])
qed auto

lemma private1_V6: "private1 (V6 w z) \<longleftrightarrow> unat w div 2 ^ 121 = 0x7e"
  using unat128_bound [of w] 
  by (simp add: byte_and_fe v6byte_unat div_mult2_eq [symmetric])

lemma linklocal1_V6: "linklocal1 (V6 w z) \<longleftrightarrow> unat w div 2 ^ 118 = 0x3fa"
  using unat128_bound [of w] 
  by (simp add: u16_and_ffc0 v6u16_unat div_mult2_eq [symmetric])

lemma multicast1_V6: "multicast1 (V6 w z) \<longleftrightarrow> unat w div 2 ^ 120 = 0xff"
  using unat128_bound [of w] 
  by (simp add: word_eq_iff_unat v6byte_unat)

text \<open>The reserved ranges, half open, as the registries list them: IPv4; IPv6 with or without a
  zone; and the IPv6 ranges that apply to an address without a zone only, since a prefix never
  contains an address with a zone.\<close>

definition in_ranges :: "(nat \<times> nat) list \<Rightarrow> nat \<Rightarrow> bool" where
  "in_ranges rs x \<longleftrightarrow> list_ex (\<lambda>(lo, hi). lo \<le> x \<and> x < hi) rs"

definition reserved4_ranges :: "(nat \<times> nat) list" where
  "reserved4_ranges =
    [(0x00000000, 0x01000000), (0x0A000000, 0x0B000000), (0x64400000, 0x64800000),
     (0x7F000000, 0x80000000), (0xA9FE0000, 0xA9FF0000), (0xAC100000, 0xAC200000),
     (0xC0000000, 0xC0000100), (0xC0000200, 0xC0000300), (0xC0A80000, 0xC0A90000),
     (0xC6120000, 0xC6140000), (0xC6336400, 0xC6336500), (0xCB007100, 0xCB007200),
     (0xE0000000, 0xF0000000), (0xF0000000, 0x100000000)]"

definition reserved6_ranges :: "(nat \<times> nat) list" where
  "reserved6_ranges =
    [(1, 2),
     (0xfc000000000000000000000000000000, 0xfe000000000000000000000000000000),
     (0xfe800000000000000000000000000000, 0xfec00000000000000000000000000000),
     (0xff000000000000000000000000000000, 0x100000000000000000000000000000000)]"

definition reserved6_nozone_ranges :: "(nat \<times> nat) list" where
  "reserved6_nozone_ranges =
    [(0, 1),
     (0x0064ff9b000000000000000000000000, 0x0064ff9b000000000000000100000000),
     (0x01000000000000000000000000000000, 0x01000000000000010000000000000000),
     (0x20010000000000000000000000000000, 0x20010200000000000000000000000000),
     (0x20020000000000000000000000000000, 0x20030000000000000000000000000000)]"

lemmas class_defs = IsLoopback_def IsPrivate_def IsUnspecified_def IsLinkLocalUnicast_def
  IsLinkLocalMulticast_def IsMulticast_def

lemma IsReserved_V4_ranges: "IsReserved (V4 a) \<longleftrightarrow> in_ranges reserved4_ranges (unat a)"
proof -
  have "IsReserved (V4 a) \<longleftrightarrow> loopback1 (V4 a) \<or> private1 (V4 a) \<or> linklocal1 (V4 a)
      \<or> multicast1 (V4 a) \<or> list_ex (\<lambda>p. Prefix_Contains p (V4 a)) reservedPrefixes \<or> a = 0"
    by (auto simp: IsReserved_def Let_def class_defs dest: linklocalmc1_multicast1
        simp del: loopback1.simps private1.simps linklocal1.simps multicast1.simps linklocalmc1.simps)
  also have "\<dots> \<longleftrightarrow> in_ranges reserved4_ranges (unat a)"
    using unat32_bound [of a]
    unfolding loopback1_V4 private1_V4 linklocal1_V4 multicast1_V4 reservedPrefixes_value
      in_ranges_def reserved4_ranges_def
    by (simp add: addr_simps div_eq_interval word_eq_iff_unat) (intro iffI; elim disjE conjE; simp)
  finally show ?thesis .
qed

lemma IsReserved_V6_ranges:
  assumes "\<not> Is4In6 (V6 w z)"
  shows "IsReserved (V6 w z) \<longleftrightarrow>
    in_ranges reserved6_ranges (unat w) \<or> z = [] \<and> in_ranges reserved6_nozone_ranges (unat w)"
proof -
  have "IsReserved (V6 w z) \<longleftrightarrow> w = 1 \<or> private1 (V6 w z) \<or> linklocal1 (V6 w z)
      \<or> multicast1 (V6 w z) \<or> w = 0 \<and> z = []
      \<or> list_ex (\<lambda>p. Prefix_Contains p (V6 w z)) reservedPrefixes"
    using assms by (auto simp: IsReserved_def Let_def class_defs dest: linklocalmc1_multicast1
        simp del: private1.simps linklocal1.simps multicast1.simps linklocalmc1.simps Is4In6.simps)
  also have "\<dots> \<longleftrightarrow> in_ranges reserved6_ranges (unat w) \<or> z = [] \<and> in_ranges reserved6_nozone_ranges (unat w)"
    using unat128_bound [of w] assms
    unfolding private1_V6 linklocal1_V6 multicast1_V6 reservedPrefixes_value
      in_ranges_def reserved6_ranges_def reserved6_nozone_ranges_def
    by (simp add: addr_simps div_eq_interval word_eq_iff_unat unat_drop_div) (intro iffI; elim disjE conjE; simp)
  finally show ?thesis .
qed

lemma IsReserved_Unmap [simp]: "IsReserved (Unmap a) = IsReserved a"
  by (simp add: IsReserved_def)

lemma IsReserved_zero [simp]: "\<not> IsReserved AddrZero"
  by (simp add: IsReserved_def)

lemma gateways_contained:
  "Prefix_Contains PrefixIPv4 GatewayIPv4" "Prefix_Contains PrefixIPv6 GatewayIPv6"
  by (simp_all add: addr_simps)

section \<open>The interface of the reserved-address test\<close>

text \<open>What the clients of the package rely on: the test ignores the IPv4-mapped form, is false on the
  zero address, and covers the whole gateway subnets, so that traffic to the virtual gateway never
  goes to a remote proxy.\<close>

locale address_class =
  fixes reserved :: "Addr \<Rightarrow> bool"
  assumes reserved_Unmap: "reserved (Unmap a) = reserved a"
    and reserved_zero: "\<not> reserved AddrZero"
    and reserved_gateway4: "Prefix_Contains PrefixIPv4 a \<Longrightarrow> reserved a"
    and reserved_gateway6: "Prefix_Contains PrefixIPv6 a \<Longrightarrow> reserved a"
begin

lemma reserved_mapped: "Is4In6 (V6 w z) \<Longrightarrow> reserved (V6 w z) = reserved (V4 (ucast w))"
  using reserved_Unmap [of "V6 w z"] by simp

lemma reserved_gateways: "Unmap a = GatewayIPv4 \<or> Unmap a = GatewayIPv6 \<Longrightarrow> reserved a"
  using reserved_gateway4 [OF gateways_contained(1)] reserved_gateway6 [OF gateways_contained(2)]
  by (metis reserved_Unmap)

end

lemma reserved_subnet4: "Prefix_Contains PrefixIPv4 a \<Longrightarrow> IsReserved a"
  by (cases a) (auto simp: addr_simps IsReserved_V4_ranges in_ranges_def reserved4_ranges_def div_eq_interval)

lemma reserved_subnet6: "Prefix_Contains PrefixIPv6 a \<Longrightarrow> IsReserved a"
proof (cases a)
  case (V6 w z)
  assume "Prefix_Contains PrefixIPv6 a"
  then have w: "0xfdfedcba987600000000000000000000 \<le> unat w" "unat w < 0xfdfedcba987600000000000000000004"
    by (auto simp: V6 addr_simps div_eq_interval)
  then have "\<not> Is4In6 (V6 w z)" by (simp add: word_eq_iff_unat unat_drop_div div_eq_interval)
  from IsReserved_V6_ranges [OF this] w show ?thesis
    by (simp add: V6 in_ranges_def reserved6_ranges_def)
qed (auto simp: addr_simps)

interpretation reserved: address_class IsReserved
  by unfold_locales (rule IsReserved_Unmap IsReserved_zero | erule reserved_subnet4 reserved_subnet6)+

section \<open>Properties\<close>

text \<open>C39. The IPv4 addresses that are reserved, as ranges: 0/8, 10/8, 100.64/10, 127/8, 169.254/16,
  172.16/12, 192.0.0/24, 192.0.2/24, 192.168/16, 198.18/15, 198.51.100/24, 203.0.113/24 and everything
  from 224.0.0.0 on; every other IPv4 address is not reserved.\<close>

theorem IsReserved_ipv4:
  "IsReserved (V4 w) \<longleftrightarrow>
     unat w < 0x01000000 \<or>
     0x0A000000 \<le> unat w \<and> unat w < 0x0B000000 \<or>
     0x64400000 \<le> unat w \<and> unat w < 0x64800000 \<or>
     0x7F000000 \<le> unat w \<and> unat w < 0x80000000 \<or>
     0xA9FE0000 \<le> unat w \<and> unat w < 0xA9FF0000 \<or>
     0xAC100000 \<le> unat w \<and> unat w < 0xAC200000 \<or>
     0xC0000000 \<le> unat w \<and> unat w < 0xC0000100 \<or>
     0xC0000200 \<le> unat w \<and> unat w < 0xC0000300 \<or>
     0xC0A80000 \<le> unat w \<and> unat w < 0xC0A90000 \<or>
     0xC6120000 \<le> unat w \<and> unat w < 0xC6140000 \<or>
     0xC6336400 \<le> unat w \<and> unat w < 0xC6336500 \<or>
     0xCB007100 \<le> unat w \<and> unat w < 0xCB007200 \<or>
     0xE0000000 \<le> unat w"
proof -
  have "0xE0000000 \<le> unat w \<longleftrightarrow>
      0xE0000000 \<le> unat w \<and> unat w < 0xF0000000 \<or> 0xF0000000 \<le> unat w \<and> unat w < 0x100000000"
    using unat32_bound [of w] by arith
  then show ?thesis
    by (simp only: IsReserved_V4_ranges in_ranges_def reserved4_ranges_def list_ex_Nil_iff list_ex_Cons_iff case_prod_conv le0 simp_thms)
qed

text \<open>C40. The IPv6 addresses that are reserved: a mapped IPv4 address when that address is; otherwise
  the loopback address, fc00::/7, fe80::/10 and ff00::/8 with or without a zone, and without a zone also
  the zero address, 64:ff9b::/96, 100::/64, 2001::/23 and 2002::/16.\<close>

theorem IsReserved_ipv6:
  "IsReserved (V6 w z) \<longleftrightarrow>
     (if drop_bit 32 w = 0xffff then IsReserved (V4 (ucast w))
      else w = 1 \<or>
        0xfc000000000000000000000000000000 \<le> unat w \<and> unat w < 0xfe000000000000000000000000000000 \<or>
        0xfe800000000000000000000000000000 \<le> unat w \<and> unat w < 0xfec00000000000000000000000000000 \<or>
        0xff000000000000000000000000000000 \<le> unat w \<or>
        z = [] \<and>
         (w = 0 \<or>
          0x0064ff9b000000000000000000000000 \<le> unat w \<and> unat w < 0x0064ff9b000000000000000100000000 \<or>
          0x01000000000000000000000000000000 \<le> unat w \<and> unat w < 0x01000000000000010000000000000000 \<or>
          0x20010000000000000000000000000000 \<le> unat w \<and> unat w < 0x20010200000000000000000000000000 \<or>
          0x20020000000000000000000000000000 \<le> unat w \<and> unat w < 0x20030000000000000000000000000000))"
proof (cases "drop_bit 32 w = 0xffff")
  case True
  then show ?thesis using reserved.reserved_mapped [of w z] by simp
next
  case False
  have "w = 1 \<longleftrightarrow> 1 \<le> unat w \<and> unat w < 2" "w = 0 \<longleftrightarrow> unat w < 1" "unat w < 0x100000000000000000000000000000000"
    using unat128_bound [of w] by (auto simp: word_eq_iff_unat)
  then show ?thesis
    using IsReserved_V6_ranges [of w z] False
    by (simp add: in_ranges_def reserved6_ranges_def reserved6_nozone_ranges_def)
qed

text \<open>The documentation block 2001:db8::/32 is not reserved: no address of it is, although the
  comment on the entry 2001::/23 says that it is covered.\<close>

theorem documentation_v6_not_reserved:
  assumes "Prefix_Contains (Prefix (V6 0x20010db8000000000000000000000000 []) 32) a"
  shows "\<not> IsReserved a"
proof -
  obtain w where a: "a = V6 w []" using assms by (cases a) (auto simp: addr_simps)
  have w: "0x20010db8000000000000000000000000 \<le> unat w" "unat w < 0x20010db9000000000000000000000000"
    using assms by (auto simp: a addr_simps div_eq_interval)
  then have "\<not> Is4In6 (V6 w [])" by (simp add: word_eq_iff_unat unat_drop_div div_eq_interval)
  from IsReserved_V6_ranges [OF this] w show ?thesis
    by (simp add: a in_ranges_def reserved6_ranges_def reserved6_nozone_ranges_def)
qed

theorem documentation_v6_not_reserved_witness: "\<not> IsReserved (V6 0x20010db8000000000000000000000001 [])"
  by (rule documentation_v6_not_reserved) (simp add: addr_simps)

end
