(* ===== verification/Proc_Name.thy ===== *)
theory Proc_Name
  imports Go_Strings
begin

text \<open>
  Package \<^verbatim>\<open>internal/procname\<close>: the normal form of a process name. The lemmas say which variants of
  a name it identifies (case, surrounding white space, one \<^verbatim>\<open>.exe\<close> suffix) and what its results
  look like.
\<close>

definition exe_suffix :: string where
  [go_defs]: "exe_suffix = ''.exe''"

definition Normalize :: "string \<Rightarrow> string" where
  "Normalize name =
     (let n = ToLower (TrimSpace name) in
      if HasSuffix n exe_suffix then TrimSuffix n exe_suffix else n)"

section \<open>Trimming and lowering\<close>

lemma is_space_lower [simp]: "is_space (lower_char c) = is_space c"
proof (cases "65 \<le> (of_char c :: nat) \<and> (of_char c :: nat) \<le> 90")
  case True
  then have "\<not> is_space c" by (auto simp: is_space_def)
  moreover have "\<not> is_space (lower_char c)"
  proof
    assume s: "is_space (lower_char c)"
    from True have "(of_char (lower_char c) :: nat) = of_char c + 32"
      by (simp add: lower_char_def)
    with True have "97 \<le> (of_char (lower_char c) :: nat)" by simp
    with s show False by (auto simp: is_space_def)
  qed
  ultimately show ?thesis by simp
next
  case False
  then show ?thesis by (auto simp: lower_char_def)
qed

lemma lower_char_idem [simp]: "lower_char (lower_char c) = lower_char c"
proof (cases "65 \<le> (of_char c :: nat) \<and> (of_char c :: nat) \<le> 90")
  case True
  then have "(of_char (lower_char c) :: nat) = of_char c + 32"
    by (simp add: lower_char_def)
  with True show ?thesis by (simp add: lower_char_def [of "lower_char c"])
next
  case False
  then show ?thesis by (auto simp: lower_char_def)
qed

lemma ToLower_idem [simp]: "ToLower (ToLower s) = ToLower s"
  by (simp add: ToLower_def)

lemma ToLower_append [simp]: "ToLower (s @ t) = ToLower s @ ToLower t"
  by (simp add: ToLower_def)

lemma dropWhile_ToLower: "dropWhile is_space (map lower_char s) = map lower_char (dropWhile is_space s)"
  by (simp add: dropWhile_map o_def)

lemma TrimSpace_ToLower: "TrimSpace (ToLower s) = ToLower (TrimSpace s)"
  by (simp add: TrimSpace_def ToLower_def dropWhile_ToLower rev_map)

lemma dropWhile_spaces: "list_all is_space p \<Longrightarrow> dropWhile is_space (p @ s) = dropWhile is_space s"
  by (induction p) auto

lemma dropWhile_all: "list_all is_space s \<Longrightarrow> dropWhile is_space s = []"
  by (simp add: dropWhile_eq_Nil_conv list_all_iff)

lemma TrimSpace_spaces:
  assumes "list_all is_space p" "list_all is_space q"
  shows "TrimSpace (p @ s @ q) = TrimSpace s"
proof (cases "list_all is_space s")
  case True
  then show ?thesis
    using assms by (simp add: TrimSpace_def dropWhile_spaces dropWhile_all)
next
  case False
  then have "dropWhile is_space (s @ q) = dropWhile is_space s @ q"
    by (auto simp: list_all_iff dropWhile_append1)
  then show ?thesis
    using assms by (simp add: TrimSpace_def dropWhile_spaces)
qed

lemma TrimSpace_idem [simp]: "TrimSpace (TrimSpace s) = TrimSpace s"
proof -
  let ?t = "dropWhile is_space s"
  have "dropWhile is_space (rev (dropWhile is_space (rev ?t))) = rev (dropWhile is_space (rev ?t))"
  proof (rule dropWhile_noop)
    show "rev (dropWhile is_space (rev ?t)) = [] \<or> \<not> is_space (hd (rev (dropWhile is_space (rev ?t))))"
    proof (cases "dropWhile is_space (rev ?t) = []")
      case False
      then obtain x where x: "x \<in> set ?t" "\<not> is_space x" by (auto simp: dropWhile_eq_Nil_conv)
      then have ne: "?t \<noteq> []" by (metis empty_iff list.set(1))
      have "last (dropWhile is_space (rev ?t)) = last (rev ?t)"
        using False by (metis append_is_Nil_conv last_append takeWhile_dropWhile_id)
      also have "\<dots> = hd ?t" using ne by (simp add: last_rev)
      finally have "hd (rev (dropWhile is_space (rev ?t))) = hd ?t" by (simp add: hd_rev)
      then show ?thesis using hd_dropWhile [OF ne] by simp
    qed simp
  qed
  then show ?thesis by (simp add: TrimSpace_def)
qed

section \<open>The normal form\<close>

lemma Normalize_ToLower [simp]: "Normalize (ToLower s) = Normalize s"
  by (simp add: Normalize_def TrimSpace_ToLower)

lemma Normalize_spaces:
  "list_all is_space p \<Longrightarrow> list_all is_space q \<Longrightarrow> Normalize (p @ s @ q) = Normalize s"
  by (simp add: Normalize_def TrimSpace_spaces)

lemma Normalize_lower: "ToLower (Normalize s) = Normalize s"
proof -
  have "map lower_char (take k (ToLower t)) = take k (ToLower t)" for k t
    by (simp add: ToLower_def take_map)
  then show ?thesis
    by (simp add: Normalize_def Let_def TrimSuffix_def) (simp add: ToLower_def)
qed

lemma HasSuffix_append [simp]: "HasSuffix (s @ t) t"
  by (simp add: HasSuffix_def)

lemma TrimSuffix_append [simp]: "TrimSuffix (s @ t) t = s"
  by (simp add: TrimSuffix_def)

text \<open>A name that ends in a letter and does not itself end in the suffix is found with and without it.\<close>

lemma Normalize_exe:
  assumes "s \<noteq> []" "\<not> is_space (hd s)" "\<not> is_space (last s)" "ToLower e = exe_suffix"
    "\<not> HasSuffix (ToLower s) exe_suffix"
  shows "Normalize (s @ e) = ToLower s" "Normalize s = ToLower s"
proof -
  have e: "e \<noteq> []" using assms(4) by (auto simp: ToLower_def exe_suffix_def)
  have "lower_char (last e) = CHR ''e''"
    using assms(4) e by (metis ToLower_def exe_suffix_def last.simps last_map list.discI)
  moreover have "\<not> is_space (CHR ''e'')" by (simp add: is_space_def)
  ultimately have "\<not> is_space (last e)" by (metis is_space_lower)
  moreover have trim: "TrimSpace t = t" if "t \<noteq> []" "\<not> is_space (hd t)" "\<not> is_space (last t)" for t
    using that by (simp add: TrimSpace_def dropWhile_noop hd_rev)
  ultimately have "TrimSpace (s @ e) = s @ e" "TrimSpace s = s"
    using assms e by simp_all
  with assms show "Normalize (s @ e) = ToLower s" "Normalize s = ToLower s"
    by (simp_all add: Normalize_def Let_def)
qed

end
