(* ===== verification/Exclude_Matcher.thy ===== *)
theory Exclude_Matcher
  imports Go_Netip Proc_Name
begin

text \<open>
  Package \<^verbatim>\<open>internal/exclude\<close>: the matcher that maps a flow to the process that owns it. The state
  is the record \<open>Matcher\<close>; a nil receiver is \<^const>\<open>None\<close>. What gopsutil and the tun2socks metadata
  answer is an argument, the record \<open>scan_env\<close>, one per scan: the connection table of each kind,
  whether a process exists and its name, the text of a network, and the clock at the end of the
  scan. The machine \<open>reachable_matcher\<close> takes scans and queries one at a time, in any order; the
  theory \<open>Matcher_Threads\<close> has the machine in which they overlap, with a step for each critical
  section of the mutex.
\<close>

section \<open>Data\<close>

datatype Network = TCP | UDP

text \<open>What the program reads of \<open>metadata.Metadata\<close>: the network, \<open>SourceAddrPort()\<close> and \<open>DstIP\<close>.\<close>

record Metadata =
  md_Network :: Network
  md_SourceAddrPort :: AddrPort
  md_DstIP :: Addr

record ConnectionStat =
  cs_Status :: string
  cs_LaddrIP :: string
  cs_LaddrPort :: "32 word"
  cs_Pid :: int

record scan_env =
  network_String :: "Network \<Rightarrow> string"
  connections :: "string \<Rightarrow> ConnectionStat list option"
  process_exists :: "int \<Rightarrow> bool"
  process_Name :: "int \<Rightarrow> string option"
  scan_end :: int

record Matcher =
  targets :: "string set"
  interval :: duration
  flowToPID :: "string \<rightharpoonup> int"
  pidNames :: "int \<rightharpoonup> string"
  lastScan :: int

section \<open>Operations\<close>

fun add_targets :: "string list \<Rightarrow> string set \<Rightarrow> string set" where
  "add_targets [] ts = ts"
| "add_targets (name # names) ts =
     (let clean = Normalize name in
      if clean = [] then add_targets names ts else add_targets names (insert clean ts))"

text \<open>The zero time of \<open>lastScan\<close> is 0, the start of year 1.\<close>

definition Matcher_New :: "string list \<Rightarrow> duration \<Rightarrow> Matcher option" where
  "Matcher_New names ivl =
     (if names = [] then None
      else Some \<lparr>targets = add_targets names {},
                 interval = (if ivl \<le> 0 then 15 * second_ns else ivl),
                 flowToPID = Map.empty, pidNames = Map.empty, lastScan = 0\<rparr>)"

definition flowKey :: "scan_env \<Rightarrow> Network \<Rightarrow> AddrPort \<Rightarrow> string" where
  "flowKey env network ap =
     (if \<not> AddrPort_IsValid ap then [] else network_String env network @ '':'' @ AddrPort_String ap)"

definition networkForKind :: "string \<Rightarrow> Network" where
  "networkForKind kind = (if HasPrefix kind ''udp'' then UDP else TCP)"

definition lookupPID :: "Matcher \<Rightarrow> string \<Rightarrow> int" where
  "lookupPID m key = (case flowToPID m key of Some pid \<Rightarrow> pid | None \<Rightarrow> 0)"

definition lookupName :: "Matcher \<Rightarrow> int \<Rightarrow> string" where
  "lookupName m pid = (case pidNames m pid of Some n \<Rightarrow> n | None \<Rightarrow> [])"

text \<open>The body of the inner loop of \<open>scanOnce\<close>: the key of a connection, unless it is skipped. The
  port is truncated to 16 bits after the test for zero, as in the source.\<close>

definition conn_key :: "scan_env \<Rightarrow> string \<Rightarrow> ConnectionStat \<Rightarrow> string option" where
  "conn_key env kind c =
     (if cs_Status c \<noteq> ''ESTABLISHED'' \<and> HasPrefix kind ''tcp'' then None
      else case ParseAddr (cs_LaddrIP c) of
             None \<Rightarrow> None
           | Some addr \<Rightarrow>
               if cs_LaddrPort c = 0 then None
               else let key = flowKey env (networkForKind kind)
                                (AddrPort (Unmap addr) (ucast (cs_LaddrPort c)))
                    in if key = [] then None else Some key)"

fun scan_conns ::
  "scan_env \<Rightarrow> string \<Rightarrow> ConnectionStat list \<Rightarrow> (string \<rightharpoonup> int) \<times> int list \<Rightarrow> (string \<rightharpoonup> int) \<times> int list" where
  "scan_conns env kind [] acc = acc"
| "scan_conns env kind (c # cs) (nextFlow, pidSet) =
     (case conn_key env kind c of
        None \<Rightarrow> scan_conns env kind cs (nextFlow, pidSet)
      | Some key \<Rightarrow> scan_conns env kind cs (nextFlow(key \<mapsto> cs_Pid c), List.insert (cs_Pid c) pidSet))"

fun scan_kinds ::
  "scan_env \<Rightarrow> string list \<Rightarrow> (string \<rightharpoonup> int) \<times> int list \<Rightarrow> (string \<rightharpoonup> int) \<times> int list" where
  "scan_kinds env [] acc = acc"
| "scan_kinds env (kind # kinds) acc =
     (case connections env kind of
        None \<Rightarrow> scan_kinds env kinds acc
      | Some conns \<Rightarrow> scan_kinds env kinds (scan_conns env kind conns acc))"

definition scan_types :: "string list" where
  "scan_types = [''tcp4'', ''tcp6'', ''udp4'', ''udp6'']"

text \<open>\<open>resolveProcessNames\<close> ranges over a map; \<open>pids\<close> is the order it takes.\<close>

fun resolveProcessNames :: "scan_env \<Rightarrow> Matcher \<Rightarrow> int list \<Rightarrow> (int \<rightharpoonup> string)" where
  "resolveProcessNames env m [] = Map.empty"
| "resolveProcessNames env m (pid # pids) =
     (let names = resolveProcessNames env m pids in
      if pid = 0 then names
      else if lookupName m pid \<noteq> [] then names(pid \<mapsto> lookupName m pid)
      else if \<not> process_exists env pid then names
      else case process_Name env pid of
             None \<Rightarrow> names
           | Some name \<Rightarrow> names(pid \<mapsto> Normalize name))"

definition scanOnce :: "scan_env \<Rightarrow> Matcher \<Rightarrow> Matcher" where
  "scanOnce env m =
     (let (nextFlow, pidSet) = scan_kinds env scan_types (Map.empty, []);
          names = resolveProcessNames env m pidSet
      in m\<lparr>flowToPID := nextFlow, pidNames := names, lastScan := scan_end env\<rparr>)"

text \<open>\<open>time.Since\<close> saturates at the range of a 64-bit duration.\<close>

definition Time_Sub :: "int \<Rightarrow> int \<Rightarrow> duration" where
  "Time_Sub t u = max (- (2 ^ 63)) (min (2 ^ 63 - 1) (t - u))"

definition stale :: "int \<Rightarrow> Matcher \<Rightarrow> bool" where
  "stale now m \<longleftrightarrow> Time_Sub now (lastScan m) > second_ns"

definition refreshOnMiss :: "int \<Rightarrow> scan_env \<Rightarrow> Matcher \<Rightarrow> Matcher" where
  "refreshOnMiss now env m = (if \<not> stale now m then m else scanOnce env m)"

text \<open>The decision once a pid is known.\<close>

definition skip_pid :: "Matcher \<Rightarrow> int \<Rightarrow> bool" where
  "skip_pid m pid =
     (let name = Normalize (lookupName m pid) in
      if name = [] then False else name \<in> targets m)"

definition ShouldSkip :: "int \<Rightarrow> scan_env \<Rightarrow> Matcher option \<Rightarrow> Metadata \<Rightarrow> bool \<times> Matcher option" where
  "ShouldSkip now env mo md =
     (case mo of
        None \<Rightarrow> (False, None)
      | Some m \<Rightarrow>
          let key = flowKey env (md_Network md) (md_SourceAddrPort md) in
          if key = [] then (False, Some m)
          else let pid = lookupPID m key in
            if pid = 0 then
              (let m' = refreshOnMiss now env m; pid' = lookupPID m' key in
               if pid' = 0 then (False, Some m') else (skip_pid m' pid', Some m'))
            else (skip_pid m pid, Some m))"

text \<open>\<open>refreshLoop\<close>: one scan at once, then one per tick, until the context is done.\<close>

definition refreshLoop :: "scan_env \<Rightarrow> scan_env list \<Rightarrow> Matcher \<Rightarrow> Matcher" where
  "refreshLoop env ticks m = foldl (\<lambda>m e. scanOnce e m) (scanOnce env m) ticks"

definition Matcher_Start :: "scan_env \<Rightarrow> scan_env list \<Rightarrow> Matcher option \<Rightarrow> Matcher option" where
  "Matcher_Start env ticks mo = map_option (refreshLoop env ticks) mo"

section \<open>The tables after a scan\<close>

text \<open>The abstract view of a scan: the list of (key, pid) pairs in the order the tables give them.\<close>

definition conn_entry :: "scan_env \<Rightarrow> string \<Rightarrow> ConnectionStat \<Rightarrow> (string \<times> int) option" where
  "conn_entry env kind c = map_option (\<lambda>key. (key, cs_Pid c)) (conn_key env kind c)"

definition kind_entries :: "scan_env \<Rightarrow> string \<Rightarrow> (string \<times> int) list" where
  "kind_entries env kind =
     (case connections env kind of None \<Rightarrow> [] | Some conns \<Rightarrow> List.map_filter (conn_entry env kind) conns)"

definition scan_entries :: "scan_env \<Rightarrow> (string \<times> int) list" where
  "scan_entries env = concat (map (kind_entries env) scan_types)"

text \<open>The name a scan finds for a pid it has no name for.\<close>

definition fresh_name :: "scan_env \<Rightarrow> int \<Rightarrow> string option" where
  "fresh_name env pid = (if process_exists env pid then map_option Normalize (process_Name env pid) else None)"

lemma map_upd_add_rev: "f(k \<mapsto> v) ++ map_of (rev es) = f ++ map_of (rev ((k, v) # es))"
  by (rule ext) (simp add: map_add_def split: option.splits)

lemma scan_conns_entries:
  "scan_conns env kind cs (f, ps) =
     (f ++ map_of (rev (List.map_filter (conn_entry env kind) cs)),
      fold List.insert (map snd (List.map_filter (conn_entry env kind) cs)) ps)"
proof (induction cs arbitrary: f ps)
  case Nil
  then show ?case by (simp add: List.map_filter_def)
next
  case (Cons c cs)
  show ?case
  proof (cases "conn_key env kind c")
    case None
    with Cons show ?thesis by (simp add: List.map_filter_simps conn_entry_def)
  next
    case (Some key)
    then have "scan_conns env kind (c # cs) (f, ps) =
        (f(key \<mapsto> cs_Pid c) ++ map_of (rev (List.map_filter (conn_entry env kind) cs)),
         fold List.insert (map snd (List.map_filter (conn_entry env kind) cs)) (List.insert (cs_Pid c) ps))"
      by (simp only: scan_conns.simps Some option.case Cons.IH)
    moreover have "List.map_filter (conn_entry env kind) (c # cs) =
        (key, cs_Pid c) # List.map_filter (conn_entry env kind) cs"
      using Some by (simp add: List.map_filter_simps conn_entry_def)
    ultimately show ?thesis by (simp only: map_upd_add_rev list.map fold_simps snd_conv)
  qed
qed

lemma scan_kinds_entries:
  "scan_kinds env ks (f, ps) =
     (f ++ map_of (rev (concat (map (kind_entries env) ks))),
      fold List.insert (map snd (concat (map (kind_entries env) ks))) ps)"
proof (induction ks arbitrary: f ps)
  case (Cons k ks)
  then show ?case
    by (cases "connections env k") (simp_all add: kind_entries_def scan_conns_entries)
qed simp

lemma set_fold_insert: "set (fold List.insert xs ys) = set xs \<union> set ys"
  by (induction xs arbitrary: ys) auto

lemma resolveProcessNames_eq:
  "resolveProcessNames env m pids pid =
     (if pid \<in> set pids \<and> pid \<noteq> 0
      then (if lookupName m pid \<noteq> [] then Some (lookupName m pid) else fresh_name env pid)
      else None)"
  by (induction pids) (auto simp: Let_def fresh_name_def split: option.splits)

text \<open>The order in which the map is ranged over does not matter.\<close>

lemma resolveProcessNames_order:
  "set pids = set pids' \<Longrightarrow> resolveProcessNames env m pids = resolveProcessNames env m pids'"
  by (rule ext) (simp add: resolveProcessNames_eq)

lemma flowToPID_scanOnce [step_simps]: "flowToPID (scanOnce env m) = map_of (rev (scan_entries env))"
  by (simp add: scanOnce_def scan_kinds_entries scan_entries_def Let_def)

lemma pidNames_scanOnce [step_simps]:
  "pidNames (scanOnce env m) pid =
     (if pid \<in> snd ` set (scan_entries env) \<and> pid \<noteq> 0
      then (if lookupName m pid \<noteq> [] then Some (lookupName m pid) else fresh_name env pid)
      else None)"
  by (simp add: scanOnce_def scan_kinds_entries scan_entries_def resolveProcessNames_eq
      set_fold_insert Let_def image_Un)

lemma scanOnce_frame [step_simps]:
  "targets (scanOnce env m) = targets m" "interval (scanOnce env m) = interval m"
  "lastScan (scanOnce env m) = scan_end env"
  by (simp_all add: scanOnce_def split: prod.split)

lemma add_targets_eq: "add_targets names ts = ts \<union> (Normalize ` set names - {[]})"
  by (induction names arbitrary: ts) (auto simp: Let_def)

section \<open>The decision\<close>

text \<open>The name the tables give to the owner of a flow.\<close>

definition owner_name :: "Matcher \<Rightarrow> string \<Rightarrow> string option" where
  "owner_name m key =
     (case flowToPID m key of
        None \<Rightarrow> None
      | Some pid \<Rightarrow> if pid = 0 then None else pidNames m pid)"

text \<open>The tables a query decides on: those after the on-demand scan, when there is one.\<close>

definition rescans :: "int \<Rightarrow> scan_env \<Rightarrow> Matcher \<Rightarrow> Metadata \<Rightarrow> bool" where
  "rescans now env m md \<longleftrightarrow>
     (let key = flowKey env (md_Network md) (md_SourceAddrPort md) in
      key \<noteq> [] \<and> lookupPID m key = 0 \<and> stale now m)"

definition query_state :: "int \<Rightarrow> scan_env \<Rightarrow> Matcher \<Rightarrow> Metadata \<Rightarrow> Matcher" where
  "query_state now env m md = (if rescans now env m md then scanOnce env m else m)"

lemma ShouldSkip_state [step_simps]:
  "snd (ShouldSkip now env (Some m) md) = Some (query_state now env m md)"
  by (simp add: ShouldSkip_def query_state_def rescans_def refreshOnMiss_def Let_def)

lemma skip_pid_owner:
  assumes "[] \<notin> targets m" "lookupPID m key \<noteq> 0"
  shows "skip_pid m (lookupPID m key) \<longleftrightarrow> (\<exists>n. owner_name m key = Some n \<and> Normalize n \<in> targets m)"
proof -
  obtain pid where p: "flowToPID m key = Some pid" "pid \<noteq> 0"
    using assms(2) by (auto simp: lookupPID_def split: option.splits)
  have "Normalize [] = []" by (simp add: Normalize_def go_defs)
  then show ?thesis
    using assms(1) p
    by (cases "pidNames m pid") (auto simp: skip_pid_def lookupPID_def lookupName_def owner_name_def Let_def)
qed

lemma owner_none: "lookupPID m key = 0 \<Longrightarrow> owner_name m key = None"
  by (auto simp: lookupPID_def owner_name_def split: option.splits)

lemma query_state_frame [simp]: "targets (query_state now env m md) = targets m"
  by (simp add: query_state_def scanOnce_frame)

lemma ShouldSkip_decision:
  assumes "[] \<notin> targets m"
  shows "fst (ShouldSkip now env (Some m) md) \<longleftrightarrow>
    AddrPort_IsValid (md_SourceAddrPort md) \<and>
    (\<exists>n. owner_name (query_state now env m md) (flowKey env (md_Network md) (md_SourceAddrPort md)) = Some n
         \<and> Normalize n \<in> targets m)"
proof -
  let ?key = "flowKey env (md_Network md) (md_SourceAddrPort md)" and ?m = "query_state now env m md"
  have key: "?key = [] \<longleftrightarrow> \<not> AddrPort_IsValid (md_SourceAddrPort md)"
    by (simp add: flowKey_def)
  have "fst (ShouldSkip now env (Some m) md) \<longleftrightarrow> ?key \<noteq> [] \<and> lookupPID ?m ?key \<noteq> 0 \<and> skip_pid ?m (lookupPID ?m ?key)"
    by (auto simp: ShouldSkip_def query_state_def rescans_def refreshOnMiss_def Let_def)
  also have "\<dots> \<longleftrightarrow> ?key \<noteq> [] \<and> (\<exists>n. owner_name ?m ?key = Some n \<and> Normalize n \<in> targets m)"
    using assms by (cases "lookupPID ?m ?key = 0") (simp_all add: owner_none skip_pid_owner)
  finally show ?thesis by (simp add: key)
qed

section \<open>The machine\<close>

text \<open>The states of a matcher over time: ticks of the refresh loop and queries, in any order. The list
  holds the scans done so far, the latest first.\<close>

inductive reachable_matcher :: "string list \<Rightarrow> duration \<Rightarrow> scan_env list \<Rightarrow> Matcher \<Rightarrow> bool"
  for names ivl where
  start: "Matcher_New names ivl = Some m \<Longrightarrow> reachable_matcher names ivl [] m"
| tick: "reachable_matcher names ivl h m \<Longrightarrow> reachable_matcher names ivl (env # h) (scanOnce env m)"
| query: "reachable_matcher names ivl h m \<Longrightarrow> ShouldSkip now env (Some m) md = (b, Some m') \<Longrightarrow>
    reachable_matcher names ivl (if rescans now env m md then env # h else h) m'"

text \<open>The invariant: the tables are those of the latest scan, and every name was found by some scan.\<close>

definition flow_inv :: "scan_env list \<Rightarrow> Matcher \<Rightarrow> bool" where
  "flow_inv h m \<longleftrightarrow>
     (case h of
        [] \<Rightarrow> flowToPID m = Map.empty \<and> pidNames m = Map.empty \<and> lastScan m = 0
      | env # _ \<Rightarrow> flowToPID m = map_of (rev (scan_entries env)) \<and>
                   dom (pidNames m) \<subseteq> snd ` set (scan_entries env) - {0} \<and> lastScan m = scan_end env)"

definition names_inv :: "scan_env list \<Rightarrow> Matcher \<Rightarrow> bool" where
  "names_inv h m \<longleftrightarrow> (\<forall>pid n. pidNames m pid = Some n \<longrightarrow> (\<exists>env \<in> set h. fresh_name env pid = Some n))"

definition matcher_inv :: "string list \<Rightarrow> scan_env list \<Rightarrow> Matcher \<Rightarrow> bool" where
  "matcher_inv names h m \<longleftrightarrow> targets m = Normalize ` set names - {[]} \<and> flow_inv h m \<and> names_inv h m"

lemma matcher_inv_New: "Matcher_New names ivl = Some m \<Longrightarrow> matcher_inv names [] m"
  by (auto simp: Matcher_New_def matcher_inv_def flow_inv_def names_inv_def add_targets_eq split: if_splits)

lemma matcher_inv_scanOnce: "matcher_inv names h m \<Longrightarrow> matcher_inv names (env # h) (scanOnce env m)"
  by (auto simp: matcher_inv_def flow_inv_def names_inv_def step_simps lookupName_def
      split: if_splits option.splits)

lemma matcher_inv_query:
  "matcher_inv names h m \<Longrightarrow>
   matcher_inv names (if rescans now env m md then env # h else h) (query_state now env m md)"
  by (simp add: query_state_def matcher_inv_scanOnce)

lemma reachable_matcher_inv: "reachable_matcher names ivl h m \<Longrightarrow> matcher_inv names h m"
proof (induction rule: reachable_matcher.induct)
  case (query h m now env md b m')
  from query.hyps(2) have "m' = query_state now env m md"
    using ShouldSkip_state [of now env m md] by simp
  with query.IH show ?case by (simp only: matcher_inv_query)
qed (auto intro: matcher_inv_New matcher_inv_scanOnce)

lemma matcher_inv_targets: "matcher_inv names h m \<Longrightarrow> [] \<notin> targets m"
  by (simp add: matcher_inv_def)

section \<open>The matcher as an interface\<close>

text \<open>What a client may rely on: the answer is the one the tables give, and every call keeps the
  invariant. The first two arguments of \<open>skip\<close> are the clock and the environment of a scan.\<close>

locale flow_matcher =
  fixes skip :: "int \<Rightarrow> scan_env \<Rightarrow> 'm \<Rightarrow> Metadata \<Rightarrow> bool \<times> 'm"
    and inv :: "'m \<Rightarrow> bool"
    and excluded :: "int \<Rightarrow> scan_env \<Rightarrow> 'm \<Rightarrow> Metadata \<Rightarrow> bool"
  assumes skip_inv: "inv m \<Longrightarrow> inv (snd (skip now env m md))"
    and skip_excluded: "inv m \<Longrightarrow> fst (skip now env m md) = excluded now env m md"

definition matcher_ok :: "Matcher option \<Rightarrow> bool" where
  "matcher_ok mo \<longleftrightarrow> (case mo of None \<Rightarrow> True | Some m \<Rightarrow> [] \<notin> targets m)"

definition excluded_flow :: "int \<Rightarrow> scan_env \<Rightarrow> Matcher option \<Rightarrow> Metadata \<Rightarrow> bool" where
  "excluded_flow now env mo md \<longleftrightarrow>
     (\<exists>m n. mo = Some m \<and> AddrPort_IsValid (md_SourceAddrPort md) \<and>
        owner_name (query_state now env m md) (flowKey env (md_Network md) (md_SourceAddrPort md)) = Some n \<and>
        Normalize n \<in> targets m)"

lemma ShouldSkip_nil [simp]: "ShouldSkip now env None md = (False, None)"
  by (simp add: ShouldSkip_def)

lemma ShouldSkip_ok: "matcher_ok mo \<Longrightarrow> matcher_ok (snd (ShouldSkip now env mo md))"
  by (cases mo) (simp_all add: matcher_ok_def ShouldSkip_state)

lemma ShouldSkip_excluded: "matcher_ok mo \<Longrightarrow> fst (ShouldSkip now env mo md) = excluded_flow now env mo md"
  by (cases mo) (simp_all add: matcher_ok_def excluded_flow_def ShouldSkip_decision)

interpretation proc_matcher: flow_matcher ShouldSkip matcher_ok excluded_flow
  by unfold_locales (auto simp: ShouldSkip_ok ShouldSkip_excluded)

lemma matcher_ok_New: "matcher_ok (Matcher_New names ivl)"
  by (auto simp: matcher_ok_def Matcher_New_def add_targets_eq)

section \<open>On-demand scans\<close>

text \<open>Queries one after the other, each with the clock it reads and the environment of the scan it may start.\<close>

fun ask_all :: "(int \<times> scan_env \<times> Metadata) list \<Rightarrow> Matcher option \<Rightarrow> Matcher option" where
  "ask_all [] mo = mo"
| "ask_all ((now, env, md) # qs) mo = ask_all qs (snd (ShouldSkip now env mo md))"

lemma ask_all_append: "ask_all (qs @ rs) mo = ask_all rs (ask_all qs mo)"
  by (induction qs mo rule: ask_all.induct) simp_all

lemma ask_all_None [simp]: "ask_all qs None = None"
  by (induction qs "None :: Matcher option" rule: ask_all.induct) simp_all

lemma ask_all_step:
  "i < length qs \<Longrightarrow> qs ! i = (now, env, md) \<Longrightarrow> ask_all (take (Suc i) qs) mo = snd (ShouldSkip now env (ask_all (take i qs) mo) md)"
  by (simp add: take_Suc_conv_app_nth ask_all_append)

lemma stale_gap: "stale now m \<Longrightarrow> lastScan m + second_ns < now"
  by (simp add: stale_def Time_Sub_def)

text \<open>A query leaves the matcher alone, or the last scan was more than a second ago and the new one has ended.\<close>

lemma ShouldSkip_scans:
  assumes "snd (ShouldSkip now env (Some m) md) = Some m'"
  shows "m' = m \<or> lastScan m + second_ns < now \<and> lastScan m' = scan_end env"
  using assms stale_gap [of now m]
  by (auto simp: ShouldSkip_state query_state_def rescans_def scanOnce_frame Let_def split: if_splits)

lemma ask_all_lastScan:
  assumes "list_all (\<lambda>(now, env, md). now \<le> scan_end env) qs" "ask_all qs (Some m) = Some m'"
  shows "lastScan m \<le> lastScan m'"
  using assms
proof (induction qs "Some m" arbitrary: m rule: ask_all.induct)
  case (2 now env md qs)
  obtain m1 where m1: "snd (ShouldSkip now env (Some m) md) = Some m1" by (simp add: ShouldSkip_state)
  then have "lastScan m \<le> lastScan m1"
    using ShouldSkip_scans [OF m1] "2.prems"(1) by auto
  moreover have "lastScan m1 \<le> lastScan m'" using "2.hyps" [of m1] "2.prems" m1 by simp
  ultimately show ?case by simp
qed simp

lemma ask_all_spaced:
  assumes clock: "list_all (\<lambda>(now, env, md). now \<le> scan_end env) qs" and ij: "i < j" "j < length qs"
    and qi: "qs ! i = (now, env, md)" and qj: "qs ! j = (now', env', md')"
    and ci: "ask_all (take (Suc i) qs) mo \<noteq> ask_all (take i qs) mo" and cj: "ask_all (take (Suc j) qs) mo \<noteq> ask_all (take j qs) mo"
  shows "scan_end env + second_ns < now'"
proof -
  obtain m0 where m0: "ask_all (take i qs) mo = Some m0"
    using ci ask_all_step [OF _ qi, of mo] ij by (cases "ask_all (take i qs) mo") auto
  obtain m1 where m1: "ask_all (take (Suc i) qs) mo = Some m1" "snd (ShouldSkip now env (Some m0) md) = Some m1"
    using ask_all_step [OF _ qi, of mo] ij m0 by (auto simp: ShouldSkip_state)
  then have last: "lastScan m1 = scan_end env" using ShouldSkip_scans [OF m1(2)] ci m0 by auto
  have "take j qs = take (Suc i) qs @ take (j - Suc i) (drop (Suc i) qs)"
    using ij(1) by (metis Suc_leI add_diff_inverse_nat not_less take_add)
  then have mid: "ask_all (take j qs) mo = ask_all (take (j - Suc i) (drop (Suc i) qs)) (Some m1)"
    by (simp add: ask_all_append m1(1))
  obtain m2 where m2: "ask_all (take j qs) mo = Some m2"
    using cj ask_all_step [OF ij(2) qj, of mo] by (cases "ask_all (take j qs) mo") auto
  have "list_all (\<lambda>(now, env, md). now \<le> scan_end env) (take (j - Suc i) (drop (Suc i) qs))"
    using clock by (auto simp: list_all_iff dest!: in_set_takeD in_set_dropD)
  from ask_all_lastScan [OF this] mid m2 have "lastScan m1 \<le> lastScan m2" by simp
  moreover obtain m3 where "snd (ShouldSkip now' env' (Some m2) md') = Some m3" "m3 \<noteq> m2"
    using cj ask_all_step [OF ij(2) qj, of mo] m2 by (auto simp: ShouldSkip_state)
  then have "lastScan m2 + second_ns < now'" using ShouldSkip_scans by blast
  ultimately show ?thesis using last by simp
qed

section \<open>Properties\<close>

text \<open>C22. A scan refines its abstract view: the flow table is the list of the connections the four
  kinds report, a later one overriding an earlier one with the same key; a name is kept for exactly
  the pids that still own a connection, a name already known is reused, and the other fields are not
  touched.\<close>

theorem scanOnce_tables:
  "flowToPID (scanOnce env m) = map_of (rev (scan_entries env)) \<and>
   pidNames (scanOnce env m) =
     (\<lambda>pid. if pid \<in> snd ` set (scan_entries env) \<and> pid \<noteq> 0
            then (if lookupName m pid \<noteq> [] then Some (lookupName m pid) else fresh_name env pid)
            else None) \<and>
   targets (scanOnce env m) = targets m \<and> interval (scanOnce env m) = interval m \<and>
   lastScan (scanOnce env m) = scan_end env"
  by (auto simp: step_simps)

text \<open>C21. In every state the matcher can reach, a query answers yes exactly when the source of the
  flow is valid, the tables it decides on (after the on-demand scan, when the flow is unknown and the
  last scan is more than a second old) name an owner, and that name is one of the configured names
  after normalization.\<close>

theorem ShouldSkip_iff_owner:
  assumes "reachable_matcher names ivl h m"
  shows "fst (ShouldSkip now env (Some m) md) \<longleftrightarrow>
    AddrPort_IsValid (md_SourceAddrPort md) \<and>
    (\<exists>n t. owner_name (query_state now env m md) (flowKey env (md_Network md) (md_SourceAddrPort md)) = Some n
         \<and> t \<in> set names \<and> Normalize t = Normalize n \<and> Normalize n \<noteq> [])"
proof -
  have "targets m = Normalize ` set names - {[]}"
    using reachable_matcher_inv [OF assms] by (simp add: matcher_inv_def)
  then have "Normalize n \<in> targets m \<longleftrightarrow> (\<exists>t. t \<in> set names \<and> Normalize t = Normalize n \<and> Normalize n \<noteq> [])" for n
    by (auto intro: image_eqI [OF sym])
  then show ?thesis
    using ShouldSkip_decision [OF matcher_inv_targets [OF reachable_matcher_inv [OF assms]], of now env md] by auto
qed

text \<open>C6. A flow is only ever skipped for a reason: the latest scan listed a connection with the key
  of the flow and a nonzero pid, and some scan so far read for that pid a process name that matches a
  configured one.\<close>

theorem ShouldSkip_only_excluded:
  assumes "reachable_matcher names ivl h m" "ShouldSkip now env (Some m) md = (True, m')"
  shows "\<exists>e h' pid n. (if rescans now env m md then env # h else h) = e # h' \<and>
    (flowKey env (md_Network md) (md_SourceAddrPort md), pid) \<in> set (scan_entries e) \<and> pid \<noteq> 0 \<and>
    (\<exists>e' \<in> set (e # h'). fresh_name e' pid = Some n) \<and> Normalize n \<in> Normalize ` set names"
proof -
  let ?h = "if rescans now env m md then env # h else h" and ?q = "query_state now env m md"
  have inv: "matcher_inv names ?h ?q"
    by (rule matcher_inv_query [OF reachable_matcher_inv [OF assms(1)]])
  have "fst (ShouldSkip now env (Some m) md)" using assms(2) by simp
  then obtain n where n: "owner_name ?q (flowKey env (md_Network md) (md_SourceAddrPort md)) = Some n"
      "Normalize n \<in> targets m"
    using ShouldSkip_decision matcher_inv_targets [OF reachable_matcher_inv [OF assms(1)]] by blast
  then obtain pid where pid: "flowToPID ?q (flowKey env (md_Network md) (md_SourceAddrPort md)) = Some pid"
      "pid \<noteq> 0" "pidNames ?q pid = Some n"
    by (auto simp: owner_name_def split: option.splits if_splits)
  from inv pid(1) obtain e h' where h: "?h = e # h'"
    by (cases "?h") (auto simp: matcher_inv_def flow_inv_def split: if_splits)
  with inv pid have "(flowKey env (md_Network md) (md_SourceAddrPort md), pid) \<in> set (scan_entries e)"
      "\<exists>e' \<in> set (e # h'). fresh_name e' pid = Some n"
    by (auto simp: matcher_inv_def flow_inv_def names_inv_def dest: map_of_SomeD)
  moreover have "Normalize n \<in> Normalize ` set names"
    using n(2) reachable_matcher_inv [OF assms(1)] by (auto simp: matcher_inv_def)
  ultimately show ?thesis using h pid(2) by blast
qed

text \<open>C23. When queries run one after the other, the on-demand scans they start are more than a second
  apart, whatever the tables hold: of any two queries that changed the matcher (a query changes it only
  by a scan, which sets the time of the last scan), the later one asked more than a second after the scan
  of the earlier one had ended. The hypothesis on the clock is that a scan does not end before the query
  that started it.\<close>

theorem refreshOnMiss_rate:
  assumes "list_all (\<lambda>(now, env, md). now \<le> scan_end env) qs" "i < j" "j < length qs"
    and "qs ! i = (now, env, md)" "qs ! j = (now', env', md')"
    and "ask_all (take (Suc i) qs) mo \<noteq> ask_all (take i qs) mo" "ask_all (take (Suc j) qs) mo \<noteq> ask_all (take j qs) mo"
  shows "scan_end env + second_ns < now'"
  using assms by (rule ask_all_spaced)

text \<open>Without targets there is no matcher, and a missing matcher skips nothing; with targets the
  interval is positive, 15 seconds when the configured one is not.\<close>

theorem Matcher_New_cases:
  "Matcher_New names ivl =
     (if names = [] then None
      else Some \<lparr>targets = Normalize ` set names - {[]}, interval = (if 0 < ivl then ivl else 15 * second_ns),
                 flowToPID = Map.empty, pidNames = Map.empty, lastScan = 0\<rparr>) \<and>
   ShouldSkip now env None md = (False, None)"
  by (simp add: Matcher_New_def add_targets_eq)

section \<open>Witnesses\<close>

definition wit_src :: AddrPort where "wit_src = AddrPort (V4 0x0A000001) 4000"

definition wit_md :: Metadata where
  "wit_md = \<lparr>md_Network = TCP, md_SourceAddrPort = wit_src, md_DstIP = V4 0x08080808\<rparr>"

definition wit_env :: scan_env where
  "wit_env = \<lparr>network_String = (\<lambda>n. case n of TCP \<Rightarrow> ''tcp'' | UDP \<Rightarrow> ''udp''),
     connections = (\<lambda>kind. if kind = ''tcp4'' then
        Some [\<lparr>cs_Status = ''ESTABLISHED'', cs_LaddrIP = ''10.0.0.1'', cs_LaddrPort = 4000, cs_Pid = 7\<rparr>] else None),
     process_exists = (\<lambda>pid. pid = 7), process_Name = (\<lambda>pid. Some ''Steam.EXE''), scan_end = 3000000000\<rparr>"

definition wit_matcher :: Matcher where
  "wit_matcher = \<lparr>targets = {''steam''}, interval = 15 * second_ns, flowToPID = Map.empty,
     pidNames = Map.empty, lastScan = 0\<rparr>"

lemma wit_matcher_New: "Matcher_New [''steam''] 0 = Some wit_matcher"
  by (simp add: Matcher_New_def wit_matcher_def Normalize_def exe_suffix_def go_defs)

lemma wit_reach: "reachable_matcher [''steam''] 0 [] wit_matcher"
  by (rule reachable_matcher.start [OF wit_matcher_New])

lemma wit_key: "flowKey wit_env TCP wit_src = ''tcp:10.0.0.1:4000''"
  by (simp add: flowKey_def wit_src_def wit_env_def go_defs Itoa.simps)

lemma wit_entries: "scan_entries wit_env = [(flowKey wit_env TCP wit_src, 7)]"
  by (simp add: scan_entries_def kind_entries_def scan_types_def wit_env_def conn_entry_def conn_key_def
      flowKey_def networkForKind_def wit_src_def List.map_filter_simps go_defs Itoa.simps)

lemma wit_rescans: "rescans 3000000000 wit_env wit_matcher wit_md"
  by (simp add: rescans_def wit_md_def wit_key lookupPID_def wit_matcher_def stale_def Time_Sub_def Let_def)

lemma wit_fields: "targets wit_matcher = {''steam''}" "lookupName wit_matcher pid = []"
    "md_Network wit_md = TCP" "md_SourceAddrPort wit_md = wit_src" "AddrPort_IsValid wit_src"
    "fresh_name wit_env 7 = Some ''steam''" "Normalize ''steam'' = ''steam''"
  by (simp_all add: wit_matcher_def lookupName_def wit_md_def wit_src_def fresh_name_def wit_env_def Normalize_def go_defs)

lemma wit_skip: "ShouldSkip 3000000000 wit_env (Some wit_matcher) wit_md = (True, Some (scanOnce wit_env wit_matcher))"
proof -
  have "fst (ShouldSkip 3000000000 wit_env (Some wit_matcher) wit_md)"
    by (simp add: ShouldSkip_decision query_state_def wit_rescans owner_name_def step_simps wit_entries wit_fields)
  moreover have "snd (ShouldSkip 3000000000 wit_env (Some wit_matcher) wit_md) = Some (scanOnce wit_env wit_matcher)"
    by (simp add: ShouldSkip_state query_state_def wit_rescans)
  ultimately show ?thesis by (metis (full_types) prod.collapse)
qed

theorem ShouldSkip_iff_owner_witness:
  "\<exists>n t. owner_name (query_state 3000000000 wit_env wit_matcher wit_md) (flowKey wit_env (md_Network wit_md) (md_SourceAddrPort wit_md)) = Some n
     \<and> t \<in> set [''steam''] \<and> Normalize t = Normalize n \<and> Normalize n \<noteq> []"
  using ShouldSkip_iff_owner [OF wit_reach, of 3000000000 wit_env wit_md] wit_skip by simp

theorem ShouldSkip_only_excluded_witness:
  "\<exists>e h' pid n. [wit_env] = e # h' \<and>
    (flowKey wit_env (md_Network wit_md) (md_SourceAddrPort wit_md), pid) \<in> set (scan_entries e) \<and> pid \<noteq> 0 \<and>
    (\<exists>e' \<in> set (e # h'). fresh_name e' pid = Some n) \<and> Normalize n \<in> Normalize ` set [''steam'']"
  using ShouldSkip_only_excluded [OF wit_reach wit_skip] by (simp only: wit_rescans if_True)

text \<open>A second query two seconds later, for a flow that the first scan did not list.\<close>

definition wit_later :: scan_env where "wit_later = wit_env\<lparr>scan_end := 5000000000\<rparr>"

lemma wit_scanned: "lastScan (scanOnce wit_env m) = 3000000000" "lastScan (scanOnce wit_later m) = 5000000000"
  by (simp_all add: scanOnce_frame wit_later_def) (simp_all add: wit_env_def)

lemma wit_later_rescans: "rescans 5000000000 wit_later (scanOnce wit_env wit_matcher) (wit_md\<lparr>md_Network := UDP\<rparr>)"
proof -
  have "flowKey wit_later UDP wit_src = ''udp:10.0.0.1:4000''"
    by (simp add: flowKey_def wit_src_def wit_later_def wit_env_def go_defs Itoa.simps)
  moreover have "scan_end wit_env = 3000000000" by (simp add: wit_env_def)
  ultimately show ?thesis
    by (simp add: rescans_def lookupPID_def step_simps wit_entries wit_key wit_fields stale_def Time_Sub_def)
qed

theorem refreshOnMiss_rate_witness: "scan_end wit_env + second_ns < 5000000000"
proof -
  let ?m = "scanOnce wit_env wit_matcher" and ?md = "wit_md\<lparr>md_Network := UDP\<rparr>"
  let ?qs = "[(3000000000, wit_env, wit_md), (5000000000, wit_later, ?md)]"
  have s1: "snd (ShouldSkip 3000000000 wit_env (Some wit_matcher) wit_md) = Some ?m" by (simp add: wit_skip)
  have s2: "snd (ShouldSkip 5000000000 wit_later (Some ?m) ?md) = Some (scanOnce wit_later ?m)"
    by (simp add: ShouldSkip_state query_state_def wit_later_rescans)
  have "lastScan wit_matcher = 0" by (simp add: wit_matcher_def)
  then have "lastScan ?m \<noteq> lastScan wit_matcher" "lastScan (scanOnce wit_later ?m) \<noteq> lastScan ?m" by (simp_all add: wit_scanned)
  then have "?m \<noteq> wit_matcher" "scanOnce wit_later ?m \<noteq> ?m" by metis+
  moreover have "list_all (\<lambda>(now, env, md). now \<le> scan_end env) ?qs" by (simp add: wit_later_def wit_env_def)
  ultimately show ?thesis
    using refreshOnMiss_rate [of ?qs 0 1 3000000000 wit_env wit_md 5000000000 wit_later ?md "Some wit_matcher"] by (simp add: s1 s2)
qed

end
