(* ===== verification/Proxy_Chain.thy ===== *)
theory Proxy_Chain
  imports Net_Addr Exclude_Matcher
begin

text \<open>
  Package \<^verbatim>\<open>internal/proxychain\<close>: the proxy that sends a flow to the upstream proxy or makes a direct
  connection. The two dialers are third-party proxies and are parameters, the record \<open>Proxy\<close>; the
  matcher is an interface value, so the chain is polymorphic in it: \<^const>\<open>None\<close> is the nil interface,
  and its method \<open>ShouldSkip\<close> is the argument \<open>skip\<close>, which takes the clock and the process tables it
  reads. The lemmas on the routing decision are proved for every matcher that keeps the contract
  \<open>flow_matcher\<close>, and used for the matcher of \<^verbatim>\<open>internal/exclude\<close>.
\<close>

section \<open>Data\<close>

record ('c, 'p) Proxy =
  px_DialContext :: "Metadata \<Rightarrow> string + 'c"
  px_DialUDP :: "Metadata \<Rightarrow> string + 'p"

record 'm Options =
  op_Matcher :: "'m option"
  op_ExcludedPrefixes :: "Prefix list"

record ('c, 'p, 'm) Chain =
  ch_upstream :: "('c, 'p) Proxy"
  ch_direct :: "('c, 'p) Proxy"
  ch_opts :: "'m Options"

section \<open>Operations\<close>

text \<open>\<open>New\<close>; \<open>NewDirect\<close> is what \<open>proxy.NewDirect()\<close> returns.\<close>

definition Chain_New :: "('c, 'p) Proxy \<Rightarrow> ('c, 'p) Proxy \<Rightarrow> 'm Options \<Rightarrow> ('c, 'p, 'm) Chain" where
  "Chain_New NewDirect upstream opts = \<lparr>ch_upstream = upstream, ch_direct = NewDirect, ch_opts = opts\<rparr>"

fun any_contains :: "Prefix list \<Rightarrow> Addr \<Rightarrow> bool" where
  "any_contains [] dst = False"
| "any_contains (p # ps) dst = (if Prefix_Contains p dst then True else any_contains ps dst)"

definition isDirect :: "('c, 'p, 'm) Chain \<Rightarrow> Metadata \<Rightarrow> bool" where
  "isDirect c md =
     (let dst = Unmap (md_DstIP md) in
      if \<not> Addr_IsValid dst then False
      else if IsReserved dst then True
      else any_contains (op_ExcludedPrefixes (ch_opts c)) dst)"

text \<open>The call may change the matcher, so the chain is returned as well.\<close>

definition shouldBypassProcess ::
  "(int \<Rightarrow> scan_env \<Rightarrow> 'm \<Rightarrow> Metadata \<Rightarrow> bool \<times> 'm) \<Rightarrow> int \<Rightarrow> scan_env \<Rightarrow>
   ('c, 'p, 'm) Chain \<Rightarrow> Metadata \<Rightarrow> bool \<times> ('c, 'p, 'm) Chain" where
  "shouldBypassProcess skip now env c md =
     (case op_Matcher (ch_opts c) of
        None \<Rightarrow> (False, c)
      | Some m \<Rightarrow> (let (b, m') = skip now env m md
                   in (b, c\<lparr>ch_opts := (ch_opts c)\<lparr>op_Matcher := Some m'\<rparr>\<rparr>)))"

definition DialContext ::
  "(int \<Rightarrow> scan_env \<Rightarrow> 'm \<Rightarrow> Metadata \<Rightarrow> bool \<times> 'm) \<Rightarrow> int \<Rightarrow> scan_env \<Rightarrow>
   ('c, 'p, 'm) Chain \<Rightarrow> Metadata \<Rightarrow> (string + 'c) \<times> ('c, 'p, 'm) Chain" where
  "DialContext skip now env c md =
     (let (bypass, c') = shouldBypassProcess skip now env c md in
      if bypass then (px_DialContext (ch_direct c') md, c')
      else if isDirect c' md then (px_DialContext (ch_direct c') md, c')
      else (px_DialContext (ch_upstream c') md, c'))"

definition DialUDP ::
  "(int \<Rightarrow> scan_env \<Rightarrow> 'm \<Rightarrow> Metadata \<Rightarrow> bool \<times> 'm) \<Rightarrow> int \<Rightarrow> scan_env \<Rightarrow>
   ('c, 'p, 'm) Chain \<Rightarrow> Metadata \<Rightarrow> (string + 'p) \<times> ('c, 'p, 'm) Chain" where
  "DialUDP skip now env c md =
     (let (bypass, c') = shouldBypassProcess skip now env c md in
      if bypass then (px_DialUDP (ch_direct c') md, c')
      else if isDirect c' md then (px_DialUDP (ch_direct c') md, c')
      else (px_DialUDP (ch_upstream c') md, c'))"

section \<open>The address part of the decision\<close>

lemma any_contains_iff: "any_contains ps dst \<longleftrightarrow> (\<exists>p \<in> set ps. Prefix_Contains p dst)"
  by (induction ps) auto

lemma IsReserved_valid: "IsReserved a \<Longrightarrow> Addr_IsValid a"
  by (cases a) (auto simp: IsReserved_zero)

lemma contains_valid: "Prefix_Contains p a \<Longrightarrow> Addr_IsValid a"
  by (cases a) (auto simp: addr_simps)

lemma div_power_coarse: "k \<le> j \<Longrightarrow> a div 2 ^ k = b div 2 ^ k \<Longrightarrow> a div 2 ^ j = b div (2 ^ j :: nat)"
  by (metis div_mult2_eq le_add_diff_inverse power_add)

lemma mapped_prefix_contains:
  assumes "Is4In6 q" "96 \<le> n" "Prefix_Contains (Prefix q n) a"
  shows "Is4In6 a"
proof -
  obtain u y where q: "q = V6 u y" using assms(1) by (cases q) auto
  obtain v z where a: "a = V6 v z" using assms(3) q by (cases a) (auto simp: addr_simps)
  have "unat v div 2 ^ (128 - n) = unat u div 2 ^ (128 - n)" using assms(3) by (simp add: q a addr_simps)
  moreover have "128 - n \<le> 32" using assms(2) by simp
  ultimately have "unat v div 2 ^ 32 = unat u div 2 ^ 32" by (rule div_power_coarse [rotated])
  then have "unat (drop_bit 32 v) = unat (drop_bit 32 u)" by (simp only: unat_drop_div)
  then show ?thesis using assms(1) by (simp add: q a word_eq_iff_unat)
qed

lemma mapped_or: "drop_bit 32 (0xffff00000000 OR ucast (w :: 32 word)) = (0xffff :: 128 word)"
proof -
  have "drop_bit 32 (ucast w :: 128 word) = 0"
    by (rule bit_word_eqI) (auto simp: bit_simps dest: bit_imp_le_length)
  then show ?thesis by simp
qed

lemma isDirect_iff:
  "isDirect c md \<longleftrightarrow> IsReserved (md_DstIP md) \<or>
     (\<exists>p \<in> set (op_ExcludedPrefixes (ch_opts c)). Prefix_Contains p (Unmap (md_DstIP md)))"
  using IsReserved_valid [of "md_DstIP md"] contains_valid [of _ "Unmap (md_DstIP md)"]
  by (auto simp: isDirect_def any_contains_iff IsReserved_Unmap Let_def)

section \<open>The routing decision, for every matcher\<close>

text \<open>The chain after the matcher was asked, and the specification of the route.\<close>

definition asked ::
  "(int \<Rightarrow> scan_env \<Rightarrow> 'm \<Rightarrow> Metadata \<Rightarrow> bool \<times> 'm) \<Rightarrow> int \<Rightarrow> scan_env \<Rightarrow>
   ('c, 'p, 'm) Chain \<Rightarrow> Metadata \<Rightarrow> ('c, 'p, 'm) Chain" where
  "asked skip now env c md =
     c\<lparr>ch_opts := (ch_opts c)\<lparr>op_Matcher := map_option (\<lambda>m. snd (skip now env m md)) (op_Matcher (ch_opts c))\<rparr>\<rparr>"

definition bypasses ::
  "(int \<Rightarrow> scan_env \<Rightarrow> 'm \<Rightarrow> Metadata \<Rightarrow> bool) \<Rightarrow> int \<Rightarrow> scan_env \<Rightarrow> ('c, 'p, 'm) Chain \<Rightarrow> Metadata \<Rightarrow> bool" where
  "bypasses excluded now env c md \<longleftrightarrow>
     (\<exists>m. op_Matcher (ch_opts c) = Some m \<and> excluded now env m md) \<or> IsReserved (md_DstIP md) \<or>
     (\<exists>p \<in> set (op_ExcludedPrefixes (ch_opts c)). Prefix_Contains p (Unmap (md_DstIP md)))"

text \<open>The chain's matcher, if there is one, satisfies the matcher's invariant.\<close>

definition chain_ok :: "('m \<Rightarrow> bool) \<Rightarrow> ('c, 'p, 'm) Chain \<Rightarrow> bool" where
  "chain_ok ok c \<longleftrightarrow> (case op_Matcher (ch_opts c) of None \<Rightarrow> True | Some m \<Rightarrow> ok m)"

lemma asked_frame [simp]:
  "ch_upstream (asked skip now env c md) = ch_upstream c" "ch_direct (asked skip now env c md) = ch_direct c"
  "op_ExcludedPrefixes (ch_opts (asked skip now env c md)) = op_ExcludedPrefixes (ch_opts c)"
  by (simp_all add: asked_def)

lemma isDirect_asked [simp]: "isDirect (asked skip now env c md) md' = isDirect c md'"
  by (simp add: isDirect_iff)

lemma shouldBypassProcess_asked:
  "shouldBypassProcess skip now env c md =
     ((case op_Matcher (ch_opts c) of None \<Rightarrow> False | Some m \<Rightarrow> fst (skip now env m md)), asked skip now env c md)"
  by (simp add: shouldBypassProcess_def asked_def split: option.splits prod.splits)

context flow_matcher
begin

lemma bypass_route:
  assumes "chain_ok inv c"
  shows "fst (shouldBypassProcess skip now env c md) \<or> isDirect c md \<longleftrightarrow> bypasses excluded now env c md"
  using assms
  by (auto simp: shouldBypassProcess_asked isDirect_iff bypasses_def chain_ok_def skip_excluded split: option.splits)

lemma asked_ok: "chain_ok inv c \<Longrightarrow> chain_ok inv (asked skip now env c md)"
  by (auto simp: chain_ok_def asked_def skip_inv split: option.splits)

lemma dial_route:
  assumes "chain_ok inv c"
  shows "DialContext skip now env c md =
      (px_DialContext (if bypasses excluded now env c md then ch_direct c else ch_upstream c) md, asked skip now env c md)"
    and "DialUDP skip now env c md =
      (px_DialUDP (if bypasses excluded now env c md then ch_direct c else ch_upstream c) md, asked skip now env c md)"
  using bypass_route [OF assms, of now env md]
  by (auto simp: DialContext_def DialUDP_def shouldBypassProcess_asked)

end

section \<open>Properties\<close>

text \<open>C5. The chain sends a flow directly exactly when its process is excluded, its destination is
  reserved or its unmapped destination lies in an excluded prefix, and to the upstream proxy
  otherwise; TCP and UDP take the same decision, and the answer of the chosen dialer is returned
  unchanged. The hypothesis is the matcher's invariant, which \<open>New\<close> establishes and every dial keeps.\<close>

theorem chain_routes:
  assumes "chain_ok matcher_ok c"
  shows "DialContext ShouldSkip now env c md =
      (px_DialContext (if bypasses excluded_flow now env c md then ch_direct c else ch_upstream c) md,
       asked ShouldSkip now env c md) \<and>
    DialUDP ShouldSkip now env c md =
      (px_DialUDP (if bypasses excluded_flow now env c md then ch_direct c else ch_upstream c) md,
       asked ShouldSkip now env c md) \<and>
    chain_ok matcher_ok (asked ShouldSkip now env c md)"
  using proc_matcher.dial_route [OF assms] proc_matcher.asked_ok [OF assms] by simp

text \<open>A nil \<open>*exclude.Matcher\<close> stored in the interface field is not a nil interface, so the nil test
  of \<open>shouldBypassProcess\<close> lets it through; the chain still routes every flow as it would with no
  matcher at all, and the call leaves the chain as it was.\<close>

theorem typed_nil_matcher:
  "let c = Chain_New d u \<lparr>op_Matcher = Some None, op_ExcludedPrefixes = ps\<rparr>;
       c0 = Chain_New d u \<lparr>op_Matcher = (None :: Matcher option option), op_ExcludedPrefixes = ps\<rparr>
   in fst (DialContext ShouldSkip now env c md) = fst (DialContext ShouldSkip now env c0 md) \<and>
      fst (DialUDP ShouldSkip now env c md) = fst (DialUDP ShouldSkip now env c0 md) \<and>
      snd (DialContext ShouldSkip now env c md) = c \<and> snd (DialUDP ShouldSkip now env c md) = c"
  by (simp add: Let_def DialContext_def DialUDP_def shouldBypassProcess_def isDirect_def Chain_New_def)

text \<open>The decision on the address is the same for an IPv4 address and for its IPv4-mapped IPv6
  form, and an excluded prefix given in the mapped form matches no address at all: the destination is
  unmapped before the test, so such an entry of the configuration has no effect.\<close>

theorem isDirect_mapped:
  "isDirect c (md\<lparr>md_DstIP := Unmap (md_DstIP md)\<rparr>) = isDirect c md \<and>
   isDirect (c\<lparr>ch_opts := (ch_opts c)\<lparr>op_ExcludedPrefixes :=
       Prefix (V6 (0xffff00000000 OR ucast (w :: 32 word)) z) (96 + n) # op_ExcludedPrefixes (ch_opts c)\<rparr>\<rparr>) md =
     isDirect c md"
proof -
  have "Is4In6 (V6 (0xffff00000000 OR ucast w) z)"
    using mapped_or [of w] by simp
  then have "\<not> Prefix_Contains (Prefix (V6 (0xffff00000000 OR ucast w) z) (96 + n)) (Unmap (md_DstIP md))"
    using mapped_prefix_contains [of "V6 (0xffff00000000 OR ucast w) z" "96 + n"] Unmap_not_mapped by fastforce
  then show ?thesis by (simp add: isDirect_iff IsReserved_Unmap)
qed

section \<open>Witness\<close>

definition wit_proxy :: "bool \<Rightarrow> (bool, bool) Proxy" where
  "wit_proxy b = \<lparr>px_DialContext = (\<lambda>md. Inr b), px_DialUDP = (\<lambda>md. Inr b)\<rparr>"

definition wit_chain :: "(bool, bool, Matcher option) Chain" where
  "wit_chain = Chain_New (wit_proxy True) (wit_proxy False)
     \<lparr>op_Matcher = Some (Some wit_matcher), op_ExcludedPrefixes = []\<rparr>"

lemma wit_chain_ok: "chain_ok matcher_ok wit_chain"
  by (simp add: chain_ok_def wit_chain_def Chain_New_def matcher_ok_def wit_matcher_def)

lemma wit_chain_bypasses: "bypasses excluded_flow 3000000000 wit_env wit_chain wit_md"
  using ShouldSkip_excluded [of "Some wit_matcher" 3000000000 wit_env wit_md] wit_skip
  by (simp add: bypasses_def wit_chain_def Chain_New_def matcher_ok_def wit_matcher_def)

theorem chain_routes_witness: "fst (DialContext ShouldSkip 3000000000 wit_env wit_chain wit_md) = Inr True"
  using chain_routes [OF wit_chain_ok, of 3000000000 wit_env wit_md] wit_chain_bypasses
  by (simp add: wit_chain_def Chain_New_def wit_proxy_def)

end
