(* ===== verification/Nano_Config.thy ===== *)
theory Nano_Config
  imports Net_Addr Proc_Name "HOL-Library.List_Lexorder" "HOL-Library.Char_ord"
begin

text \<open>
  Package \<^verbatim>\<open>internal/config\<close> and \<open>loadRuntimeConfig\<close> of \<^verbatim>\<open>cmd/nanotun/main.go\<close>: the user's configuration,
  the merge of its three layers and the validated runtime view. The file system and the YAML decoder
  are parameters of \<open>LoadFile\<close>; the parsed command line is a record with an option for each flag,
  \<^const>\<open>None\<close> when the flag was not given. Errors are the values of \<open>config_error\<close>.
\<close>

section \<open>Data\<close>

definition StackModeGVisor :: string where [go_defs]: "StackModeGVisor = ''gvisor''"

definition StackModeSimple :: string where [go_defs]: "StackModeSimple = ''simple''"

record Config =
  TunName :: string
  MTU :: int
  StackMode :: string
  Proxy :: string
  DNS :: string
  UDPTimeout :: duration
  ExcludedProcesses :: "string list"
  ExcludeRefresh :: duration
  ExcludedIPs :: "string list"
  LogLevel :: string
  LogDir :: string
  AutoDefaultRoute :: bool

record Runtime =
  rt_TunName :: string
  rt_MTU :: int
  rt_StackMode :: string
  rt_Proxy :: string
  rt_DNS :: AddrPort
  rt_UDPTimeout :: duration
  rt_ExcludedProcesses :: "string list"
  rt_ExcludeRefresh :: duration
  rt_ExcludedIPs :: "Prefix list"
  rt_LogLevel :: string
  rt_LogDir :: string
  rt_AutoDefaultRoute :: bool

datatype config_error =
    ReadError string
  | YamlError string
  | ProxyRequired
  | UnknownStackMode string
  | InvalidIP string
  | InvalidPrefix string
  | InvalidMTU int
  | InvalidDNS string

section \<open>Operations\<close>

text \<open>The zero value of the struct.\<close>

definition Config_zero :: Config where
  "Config_zero = \<lparr>TunName = [], MTU = 0, StackMode = [], Proxy = [], DNS = [], UDPTimeout = 0,
     ExcludedProcesses = [], ExcludeRefresh = 0, ExcludedIPs = [], LogLevel = [], LogDir = [],
     AutoDefaultRoute = False\<rparr>"

definition Default :: Config where
  "Default = Config_zero\<lparr>TunName := ''nano0'', MTU := 1500, StackMode := StackModeGVisor,
     UDPTimeout := minute_ns, ExcludeRefresh := 15 * second_ns, LogLevel := ''info'', LogDir := ''logs''\<rparr>"

definition LoadFile ::
  "(string \<Rightarrow> string + bytes) \<Rightarrow> (bytes \<Rightarrow> string + Config) \<Rightarrow> string \<Rightarrow> config_error + Config" where
  "LoadFile readFile unmarshal path =
     (if TrimSpace path = [] then Inr Config_zero
      else case readFile path of
             Inl e \<Rightarrow> Inl (ReadError e)
           | Inr data \<Rightarrow>
               (case unmarshal data of
                  Inl e \<Rightarrow> Inl (YamlError e)
                | Inr cfg \<Rightarrow> Inr cfg))"

definition Merge :: "Config \<Rightarrow> Config \<Rightarrow> Config" where
  "Merge c override =
     \<lparr>TunName = (if TunName override \<noteq> [] then TunName override else TunName c),
      MTU = (if MTU override \<noteq> 0 then MTU override else MTU c),
      StackMode = (if StackMode override \<noteq> [] then ToLower (StackMode override) else StackMode c),
      Proxy = (if Proxy override \<noteq> [] then Proxy override else Proxy c),
      DNS = (if DNS override \<noteq> [] then DNS override else DNS c),
      UDPTimeout = (if UDPTimeout override \<noteq> 0 then UDPTimeout override else UDPTimeout c),
      ExcludedProcesses = (if length (ExcludedProcesses override) > 0 then ExcludedProcesses override else ExcludedProcesses c),
      ExcludeRefresh = (if ExcludeRefresh override \<noteq> 0 then ExcludeRefresh override else ExcludeRefresh c),
      ExcludedIPs = (if length (ExcludedIPs override) > 0 then ExcludedIPs override else ExcludedIPs c),
      LogLevel = (if LogLevel override \<noteq> [] then LogLevel override else LogLevel c),
      LogDir = (if LogDir override \<noteq> [] then LogDir override else LogDir c),
      AutoDefaultRoute = (if AutoDefaultRoute override then True else AutoDefaultRoute c)\<rparr>"

definition parseStackMode :: "string \<Rightarrow> config_error + string" where
  "parseStackMode v =
     (let m = ToLower (TrimSpace v) in
      if m = [] \<or> m = StackModeGVisor then Inr StackModeGVisor
      else if m = StackModeSimple then Inr StackModeSimple
      else Inl (UnknownStackMode v))"

definition parseAddrPort :: "string \<Rightarrow> config_error + AddrPort" where
  "parseAddrPort raw =
     (let raw' = (if \<not> Contains raw '':'' then raw @ '':53'' else raw) in
      case ParseAddrPort raw' of None \<Rightarrow> Inl (InvalidDNS raw') | Some ap \<Rightarrow> Inr ap)"

text \<open>One turn of the loop of \<open>parsePrefixList\<close> on a trimmed, nonempty entry.\<close>

definition parse_prefix_entry :: "string \<Rightarrow> config_error + Prefix" where
  "parse_prefix_entry s =
     (let s' = (if \<not> Contains s ''/'' then
                  (case ParseAddr s of
                     None \<Rightarrow> Inl (InvalidIP s)
                   | Some ip \<Rightarrow> Inr (if Addr_Is4 ip then s @ ''/32'' else s @ ''/128''))
                else Inr s)
      in case s' of
           Inl e \<Rightarrow> Inl e
         | Inr t \<Rightarrow> (case ParsePrefix t of None \<Rightarrow> Inl (InvalidPrefix t) | Some p \<Rightarrow> Inr (Masked p)))"

fun parse_prefix_loop :: "string list \<Rightarrow> Prefix list \<Rightarrow> config_error + Prefix list" where
  "parse_prefix_loop [] out = Inr out"
| "parse_prefix_loop (raw # raws) out =
     (let s = TrimSpace raw in
      if s = [] then parse_prefix_loop raws out
      else case parse_prefix_entry s of
             Inl e \<Rightarrow> Inl e
           | Inr p \<Rightarrow> parse_prefix_loop raws (out @ [p]))"

definition parsePrefixList :: "string list \<Rightarrow> config_error + Prefix list" where
  "parsePrefixList raw = (if raw = [] then Inr [] else parse_prefix_loop raw [])"

fun normalize_loop :: "string list \<Rightarrow> string set \<Rightarrow> string list \<Rightarrow> string list" where
  "normalize_loop [] seen out = out"
| "normalize_loop (name # names) seen out =
     (let cleaned = Normalize name in
      if cleaned = [] then normalize_loop names seen out
      else if cleaned \<in> seen then normalize_loop names seen out
      else normalize_loop names (insert cleaned seen) (out @ [cleaned]))"

definition normalizeProcessList :: "string list \<Rightarrow> string list" where
  "normalizeProcessList names = (if names = [] then [] else sort (normalize_loop names {} []))"

definition Finalize :: "Config \<Rightarrow> config_error + Runtime" where
  "Finalize c =
     (let base = Merge Default c in
      if Proxy base = [] then Inl ProxyRequired
      else case parseStackMode (StackMode base) of
        Inl e \<Rightarrow> Inl e
      | Inr mode \<Rightarrow>
        (case parsePrefixList (ExcludedIPs base) of
           Inl e \<Rightarrow> Inl e
         | Inr excludedPrefixes \<Rightarrow>
           let run = \<lparr>rt_TunName = TunName base, rt_MTU = MTU base, rt_StackMode = mode, rt_Proxy = Proxy base,
                      rt_DNS = AddrPort AddrZero 0, rt_UDPTimeout = UDPTimeout base,
                      rt_ExcludedProcesses = normalizeProcessList (ExcludedProcesses base),
                      rt_ExcludeRefresh = ExcludeRefresh base, rt_ExcludedIPs = excludedPrefixes,
                      rt_LogLevel = LogLevel base, rt_LogDir = LogDir base,
                      rt_AutoDefaultRoute = AutoDefaultRoute base\<rparr>;
               run1 = (if UDPTimeout base = 0 then run\<lparr>rt_UDPTimeout := minute_ns\<rparr> else run);
               run2 = (if ExcludeRefresh base = 0 then run1\<lparr>rt_ExcludeRefresh := 15 * second_ns\<rparr> else run1)
           in if MTU base < 0 then Inl (InvalidMTU (MTU base))
              else if TrimSpace (DNS base) \<noteq> [] then
                (case parseAddrPort (DNS base) of
                   Inl e \<Rightarrow> Inl e
                 | Inr addr \<Rightarrow> Inr (run2\<lparr>rt_DNS := addr\<rparr>))
              else Inr (run2\<lparr>rt_DNS := MustParseAddrPort ''8.8.8.8:53''\<rparr>)))"

section \<open>The command line\<close>

record Flags =
  fl_config :: string
  fl_tun :: "string option"
  fl_mtu :: "int option"
  fl_stack :: "string option"
  fl_proxy :: "string option"
  fl_dns :: "string option"
  fl_auto_route :: "bool option"
  fl_udp_timeout :: "duration option"
  fl_exclude :: "string list option"
  fl_exclude_refresh :: "duration option"
  fl_exclude_ip :: "string list option"
  fl_log_level :: "string option"
  fl_log_dir :: "string option"

definition changed :: "'a \<Rightarrow> 'a option \<Rightarrow> 'a" where
  "changed zero fl = (case fl of None \<Rightarrow> zero | Some v \<Rightarrow> v)"

definition overrides :: "Flags \<Rightarrow> Config" where
  "overrides fl =
     \<lparr>TunName = changed [] (fl_tun fl), MTU = changed 0 (fl_mtu fl), StackMode = changed [] (fl_stack fl),
      Proxy = changed [] (fl_proxy fl), DNS = changed [] (fl_dns fl),
      UDPTimeout = changed 0 (fl_udp_timeout fl), ExcludedProcesses = changed [] (fl_exclude fl),
      ExcludeRefresh = changed 0 (fl_exclude_refresh fl), ExcludedIPs = changed [] (fl_exclude_ip fl),
      LogLevel = changed [] (fl_log_level fl), LogDir = changed [] (fl_log_dir fl),
      AutoDefaultRoute = changed False (fl_auto_route fl)\<rparr>"

definition loadRuntimeConfig ::
  "(string \<Rightarrow> string + bytes) \<Rightarrow> (bytes \<Rightarrow> string + Config) \<Rightarrow> Flags \<Rightarrow> config_error + Runtime" where
  "loadRuntimeConfig readFile unmarshal fl =
     (case LoadFile readFile unmarshal (fl_config fl) of
        Inl e \<Rightarrow> Inl e
      | Inr fileCfg \<Rightarrow> Finalize (Merge (Merge Default fileCfg) (overrides fl)))"

section \<open>The merge of layers\<close>

text \<open>What the users of the merge rely on: the layers can be merged in any grouping, and an empty
  layer changes nothing. A base layer that is merged in twice counts once.\<close>

locale override_layers =
  fixes merge :: "'c \<Rightarrow> 'c \<Rightarrow> 'c" and none :: 'c
  assumes merge_assoc: "merge (merge a b) c = merge a (merge b c)"
    and merge_none: "merge a none = a"
begin

lemma base_absorbed:
  assumes "merge d d = d"
  shows "merge d (merge (merge d a) b) = merge d (merge a b)"
proof -
  have "merge d (merge (merge d a) b) = merge (merge d d) (merge a b)" by (simp only: merge_assoc)
  with assms show ?thesis by simp
qed

lemma no_overrides: "merge (merge d a) none = merge d a"
  by (rule merge_none)

end

lemma Merge_fields:
  "TunName (Merge a b) = (if TunName b \<noteq> [] then TunName b else TunName a)"
  "MTU (Merge a b) = (if MTU b \<noteq> 0 then MTU b else MTU a)"
  "StackMode (Merge a b) = (if StackMode b \<noteq> [] then ToLower (StackMode b) else StackMode a)"
  "Proxy (Merge a b) = (if Proxy b \<noteq> [] then Proxy b else Proxy a)"
  "DNS (Merge a b) = (if DNS b \<noteq> [] then DNS b else DNS a)"
  "UDPTimeout (Merge a b) = (if UDPTimeout b \<noteq> 0 then UDPTimeout b else UDPTimeout a)"
  "ExcludedProcesses (Merge a b) = (if ExcludedProcesses b \<noteq> [] then ExcludedProcesses b else ExcludedProcesses a)"
  "ExcludeRefresh (Merge a b) = (if ExcludeRefresh b \<noteq> 0 then ExcludeRefresh b else ExcludeRefresh a)"
  "ExcludedIPs (Merge a b) = (if ExcludedIPs b \<noteq> [] then ExcludedIPs b else ExcludedIPs a)"
  "LogLevel (Merge a b) = (if LogLevel b \<noteq> [] then LogLevel b else LogLevel a)"
  "LogDir (Merge a b) = (if LogDir b \<noteq> [] then LogDir b else LogDir a)"
  "AutoDefaultRoute (Merge a b) = (AutoDefaultRoute a \<or> AutoDefaultRoute b)"
  by (simp_all add: Merge_def)

lemma ToLower_Nil [simp]: "ToLower s = [] \<longleftrightarrow> s = []"
  by (simp add: ToLower_def)

lemma Merge_assoc: "Merge (Merge a b) c = Merge a (Merge b c)"
  by (rule Config.equality) (simp_all add: Merge_fields)

lemma Merge_zero: "Merge a Config_zero = a"
  by (simp add: Merge_def Config_zero_def)

lemma Merge_Default_Default: "Merge Default Default = Default"
  by (simp add: Merge_def Default_def Config_zero_def go_defs)

interpretation layers: override_layers Merge Config_zero
  by unfold_locales (rule Merge_assoc, rule Merge_zero)

section \<open>The lists\<close>

lemma normalize_loop_set: "set (normalize_loop names seen out) = set out \<union> (Normalize ` set names - {[]} - seen)"
  by (induction names seen out rule: normalize_loop.induct) (auto simp: Let_def)

lemma normalize_loop_distinct:
  "distinct out \<Longrightarrow> set out \<subseteq> seen \<Longrightarrow> distinct (normalize_loop names seen out)"
proof (induction names seen out rule: normalize_loop.induct)
  case (2 name names seen out)
  then show ?case by (simp add: Let_def) blast
qed simp

lemma normalizeProcessList_set: "set (normalizeProcessList names) = Normalize ` set names - {[]}"
  by (auto simp: normalizeProcessList_def normalize_loop_set)

text \<open>The entries of the list of excluded addresses, one by one.\<close>

definition prefix_entries :: "string list \<Rightarrow> string list" where
  "prefix_entries raw = filter (\<lambda>s. s \<noteq> []) (map TrimSpace raw)"

lemma parse_prefix_loop_eq:
  "parse_prefix_loop raw out = Inr ps \<longleftrightarrow>
     (\<exists>qs. ps = out @ qs \<and> map parse_prefix_entry (prefix_entries raw) = map Inr qs)"
proof (induction raw arbitrary: out)
  case (Cons r raw)
  show ?case
  proof (cases "TrimSpace r = []")
    case True
    with Cons show ?thesis by (simp add: prefix_entries_def)
  next
    case False
    then show ?thesis
      using Cons [of "out @ [q]" for q]
      by (cases "parse_prefix_entry (TrimSpace r)") (auto simp: prefix_entries_def Let_def Cons_eq_map_conv)
  qed
qed (auto simp: prefix_entries_def)

lemma parsePrefixList_eq:
  "parsePrefixList raw = Inr ps \<longleftrightarrow> map parse_prefix_entry (prefix_entries raw) = map Inr ps"
  by (auto simp: parsePrefixList_def parse_prefix_loop_eq prefix_entries_def)

lemma ParseAddr_valid: "ParseAddr s = Some a \<Longrightarrow> Addr_IsValid a"
  by (auto simp: ParseAddr_def parseIPv4_def parseIPv6_def Let_def split: option.splits if_splits)

lemma ParsePrefix_valid: "ParsePrefix s = Some p \<Longrightarrow> Prefix_IsValid p \<and> Addr_Zone (pfx_addr p) = []"
  by (auto simp: ParsePrefix_def Prefix_IsValid_def Let_def dest: ParseAddr_valid elim: Addr_Is6.elims
      split: option.splits if_splits)

lemma ParseAddrPort_valid: "ParseAddrPort s = Some ap \<Longrightarrow> AddrPort_IsValid ap"
  by (auto simp: ParseAddrPort_def AddrPort_IsValid_def dest: ParseAddr_valid split: option.splits if_splits prod.splits)

lemma Masked_valid [simp]: "Prefix_IsValid (Masked p) = Prefix_IsValid p"
  by (cases p rule: Masked.cases) (auto simp: Prefix_IsValid_def)

lemma Masked_idem [simp]: "Masked (Masked p) = Masked p"
  by (cases p rule: Masked.cases) (auto simp: and.assoc)

lemma parse_prefix_entry_valid: "parse_prefix_entry s = Inr p \<Longrightarrow> Prefix_IsValid p \<and> Masked p = p"
  by (auto simp: parse_prefix_entry_def Let_def dest: ParsePrefix_valid split: sum.splits option.splits if_splits)

section \<open>Finalize\<close>

text \<open>The conditions under which a configuration is accepted, read off the user's values, and the
  runtime view it then has.\<close>

definition config_ok :: "Config \<Rightarrow> bool" where
  "config_ok c \<longleftrightarrow>
     Proxy c \<noteq> [] \<and>
     ToLower (TrimSpace (StackMode c)) \<in> {[], ''gvisor'', ''simple''} \<and>
     list_all (\<lambda>s. \<not> isl (parse_prefix_entry s)) (prefix_entries (ExcludedIPs c)) \<and>
     0 \<le> MTU c \<and>
     (TrimSpace (DNS c) = [] \<or> \<not> isl (parseAddrPort (DNS c)))"

definition pick :: "'a \<Rightarrow> 'a \<Rightarrow> 'a \<Rightarrow> 'a" where
  "pick zero a b = (if a \<noteq> zero then a else b)"

definition finalized :: "Config \<Rightarrow> Runtime" where
  "finalized c =
     \<lparr>rt_TunName = pick [] (TunName c) ''nano0'', rt_MTU = pick 0 (MTU c) 1500,
      rt_StackMode = (if ToLower (TrimSpace (StackMode c)) = ''simple'' then ''simple'' else ''gvisor''),
      rt_Proxy = Proxy c,
      rt_DNS = (if TrimSpace (DNS c) = [] then AddrPort (V4 0x08080808) 53 else projr (parseAddrPort (DNS c))),
      rt_UDPTimeout = pick 0 (UDPTimeout c) minute_ns,
      rt_ExcludedProcesses = normalizeProcessList (ExcludedProcesses c),
      rt_ExcludeRefresh = pick 0 (ExcludeRefresh c) (15 * second_ns),
      rt_ExcludedIPs = map (\<lambda>s. projr (parse_prefix_entry s)) (prefix_entries (ExcludedIPs c)),
      rt_LogLevel = pick [] (LogLevel c) ''info'', rt_LogDir = pick [] (LogDir c) ''logs'',
      rt_AutoDefaultRoute = AutoDefaultRoute c\<rparr>"

lemma map_Inr_iff:
  "map f xs = map Inr ys \<longleftrightarrow> list_all (\<lambda>x. \<not> isl (f x)) xs \<and> ys = map (\<lambda>x. projr (f x)) xs"
proof (induction xs arbitrary: ys)
  case (Cons x xs)
  then show ?case by (cases ys; cases "f x") auto
qed auto

lemma parsePrefixList_cases:
  "parsePrefixList raw = Inr ps \<longleftrightarrow>
     list_all (\<lambda>s. \<not> isl (parse_prefix_entry s)) (prefix_entries raw) \<and>
     ps = map (\<lambda>s. projr (parse_prefix_entry s)) (prefix_entries raw)"
  by (simp add: parsePrefixList_eq map_Inr_iff)

lemma parseStackMode_base:
  "parseStackMode (StackMode (Merge Default c)) =
     (let m = ToLower (TrimSpace (StackMode c)) in
      if m \<in> {[], ''gvisor''} then Inr ''gvisor'' else if m = ''simple'' then Inr ''simple''
      else Inl (UnknownStackMode (StackMode (Merge Default c))))"
proof (cases "StackMode c = []")
  case True
  then show ?thesis
    by (simp add: parseStackMode_def Merge_fields Default_def Config_zero_def go_defs)
next
  case False
  then show ?thesis
    by (simp add: parseStackMode_def Merge_fields TrimSpace_ToLower StackModeGVisor_def StackModeSimple_def Let_def)
qed

lemma MustParse_dns: "MustParseAddrPort ''8.8.8.8:53'' = AddrPort (V4 0x08080808) 53"
  by (simp add: MustParseAddrPort_def ParseAddrPort_default_dns)

lemma base_fields:
  "TunName (Merge Default c) = pick [] (TunName c) ''nano0''" "MTU (Merge Default c) = pick 0 (MTU c) 1500"
  "Proxy (Merge Default c) = Proxy c" "DNS (Merge Default c) = DNS c"
  "UDPTimeout (Merge Default c) = pick 0 (UDPTimeout c) minute_ns"
  "ExcludedProcesses (Merge Default c) = ExcludedProcesses c"
  "ExcludeRefresh (Merge Default c) = pick 0 (ExcludeRefresh c) (15 * second_ns)"
  "ExcludedIPs (Merge Default c) = ExcludedIPs c" "LogLevel (Merge Default c) = pick [] (LogLevel c) ''info''"
  "LogDir (Merge Default c) = pick [] (LogDir c) ''logs''" "AutoDefaultRoute (Merge Default c) = AutoDefaultRoute c"
  by (simp_all add: Merge_fields Default_def Config_zero_def pick_def)

lemma pick_nonzero [simp]:
  "k \<noteq> 0 \<Longrightarrow> pick 0 d k \<noteq> (0 :: int)" "0 < k \<Longrightarrow> pick 0 n k < 0 \<longleftrightarrow> n < (0 :: int)"
  by (auto simp: pick_def)

definition runtime_of :: "Config \<Rightarrow> string \<Rightarrow> Prefix list \<Rightarrow> AddrPort \<Rightarrow> Runtime" where
  "runtime_of c mode ps dns = (finalized c)\<lparr>rt_StackMode := mode, rt_ExcludedIPs := ps, rt_DNS := dns\<rparr>"

lemma Finalize_eq:
  "Finalize c =
     (if Proxy c = [] then Inl ProxyRequired
      else case parseStackMode (StackMode (Merge Default c)) of
        Inl e \<Rightarrow> Inl e
      | Inr mode \<Rightarrow>
        (case parsePrefixList (ExcludedIPs c) of
           Inl e \<Rightarrow> Inl e
         | Inr ps \<Rightarrow>
             if MTU c < 0 then Inl (InvalidMTU (MTU c))
             else if TrimSpace (DNS c) \<noteq> [] then
               (case parseAddrPort (DNS c) of Inl e \<Rightarrow> Inl e | Inr a \<Rightarrow> Inr (runtime_of c mode ps a))
             else Inr (runtime_of c mode ps (AddrPort (V4 0x08080808) 53))))"
proof -
  have "pick 0 (MTU c) 1500 = MTU c" if "MTU c < 0" using that by (simp add: pick_def)
  then show ?thesis
    by (simp add: Finalize_def base_fields MustParse_dns Let_def runtime_of_def finalized_def
        cong: sum.case_cong if_cong)
qed

lemma Finalize_cases: "Finalize c = Inr r \<longleftrightarrow> config_ok c \<and> r = finalized c"
proof (cases "Proxy c = [] \<or> MTU c < 0 \<or> TrimSpace (DNS c) \<noteq> [] \<and> isl (parseAddrPort (DNS c))")
  case True
  then have "\<not> config_ok c" by (auto simp: config_ok_def)
  with True show ?thesis by (auto simp: Finalize_eq split: sum.splits)
next
  case False
  define m where "m = ToLower (TrimSpace (StackMode c))"
  have mode: "parseStackMode (StackMode (Merge Default c)) = Inr mode \<longleftrightarrow>
      m \<in> {[], ''gvisor'', ''simple''} \<and> mode = rt_StackMode (finalized c)" for mode
    unfolding parseStackMode_base Let_def finalized_def m_def [symmetric] by auto
  have dns: "Finalize c = Inr r \<longleftrightarrow> (\<exists>mode ps. parseStackMode (StackMode (Merge Default c)) = Inr mode \<and>
      parsePrefixList (ExcludedIPs c) = Inr ps \<and> r = runtime_of c mode ps (rt_DNS (finalized c)))"
    using False unfolding Finalize_eq
    by (cases "parseStackMode (StackMode (Merge Default c))"; cases "parsePrefixList (ExcludedIPs c)";
        cases "parseAddrPort (DNS c)") (auto simp: finalized_def)
  have "runtime_of c (rt_StackMode (finalized c)) (rt_ExcludedIPs (finalized c)) (rt_DNS (finalized c)) = finalized c"
    by (simp add: runtime_of_def)
  then show ?thesis
    using False unfolding dns mode parsePrefixList_cases
    by (auto simp: config_ok_def m_def finalized_def)
qed

lemma Finalize_absorb: "Finalize (Merge (Merge Default f) o') = Finalize (Merge f o')"
  by (simp add: Finalize_def layers.base_absorbed [OF Merge_Default_Default])

lemma normalizeProcessList_sorted: "sorted (normalizeProcessList names)" "distinct (normalizeProcessList names)"
  by (simp_all add: normalizeProcessList_def normalize_loop_distinct)

lemma bare_contains:
  "Prefix_Contains (Prefix (V4 w) 32) b \<longleftrightarrow> b = V4 w" "Prefix_Contains (Prefix (V6 v []) 128) b \<longleftrightarrow> b = V6 v []"
  by (cases b; auto simp: addr_simps word_eq_iff_unat)+

lemma Merge_pick:
  "TunName (Merge a b) = pick [] (TunName b) (TunName a)" "MTU (Merge a b) = pick 0 (MTU b) (MTU a)"
  "DNS (Merge a b) = pick [] (DNS b) (DNS a)"
  "Proxy (Merge a b) = pick [] (Proxy b) (Proxy a)" "UDPTimeout (Merge a b) = pick 0 (UDPTimeout b) (UDPTimeout a)"
  "ExcludedProcesses (Merge a b) = pick [] (ExcludedProcesses b) (ExcludedProcesses a)"
  "ExcludeRefresh (Merge a b) = pick 0 (ExcludeRefresh b) (ExcludeRefresh a)"
  "ExcludedIPs (Merge a b) = pick [] (ExcludedIPs b) (ExcludedIPs a)"
  "LogLevel (Merge a b) = pick [] (LogLevel b) (LogLevel a)" "LogDir (Merge a b) = pick [] (LogDir b) (LogDir a)"
  "AutoDefaultRoute (Merge a b) = (AutoDefaultRoute a \<or> AutoDefaultRoute b)"
  by (simp_all add: Merge_fields pick_def)

lemma pick_pick: "pick z (pick z a b) d = pick z a (pick z b d)"
  by (simp add: pick_def)

lemma overrides_fields:
  "StackMode (overrides fl) = changed [] (fl_stack fl)" "DNS (overrides fl) = changed [] (fl_dns fl)"
  "TunName (overrides fl) = changed [] (fl_tun fl)" "MTU (overrides fl) = changed 0 (fl_mtu fl)"
  "Proxy (overrides fl) = changed [] (fl_proxy fl)" "UDPTimeout (overrides fl) = changed 0 (fl_udp_timeout fl)"
  "ExcludedProcesses (overrides fl) = changed [] (fl_exclude fl)"
  "ExcludeRefresh (overrides fl) = changed 0 (fl_exclude_refresh fl)"
  "ExcludedIPs (overrides fl) = changed [] (fl_exclude_ip fl)"
  "LogLevel (overrides fl) = changed [] (fl_log_level fl)" "LogDir (overrides fl) = changed [] (fl_log_dir fl)"
  "AutoDefaultRoute (overrides fl) = (fl_auto_route fl = Some True)"
  by (simp_all add: overrides_def changed_def split: option.split)

text \<open>The two fields that are parsed: the stack mode, which the merge turns to lower case, and the resolver.\<close>

lemma merged_mode:
  assumes "config_ok (Merge f c)"
  shows "parseStackMode (pick [] (StackMode c) (pick [] (StackMode f) ''gvisor'')) = Inr (rt_StackMode (finalized (Merge f c)))"
proof -
  define v where "v = pick [] (StackMode c) (StackMode f)"
  define m where "m = ToLower (TrimSpace v)"
  have "parseStackMode ''gvisor'' = parseStackMode []"
    by (simp add: parseStackMode_def go_defs)
  then have "parseStackMode (pick [] (StackMode c) (pick [] (StackMode f) ''gvisor'')) = parseStackMode v"
    by (simp add: v_def pick_def)
  moreover have m: "ToLower (TrimSpace (StackMode (Merge f c))) = m"
    by (simp add: m_def v_def Merge_fields pick_def TrimSpace_ToLower)
  have "m \<in> {[], ''gvisor'', ''simple''}"
    using assms unfolding config_ok_def m by simp
  then have "parseStackMode v = Inr (if m = ''simple'' then ''simple'' else ''gvisor'')"
    unfolding parseStackMode_def m_def [symmetric] Let_def StackModeGVisor_def StackModeSimple_def by auto
  ultimately show ?thesis by (simp add: finalized_def m)
qed

lemma merged_dns:
  assumes "config_ok (Merge f c)"
  shows "let dns = pick [] (DNS c) (DNS f) in
    if TrimSpace dns = [] then rt_DNS (finalized (Merge f c)) = AddrPort (V4 0x08080808) 53
    else parseAddrPort dns = Inr (rt_DNS (finalized (Merge f c)))"
  using assms by (auto simp: config_ok_def finalized_def Merge_pick Let_def)

section \<open>Properties\<close>

text \<open>C25. \<open>Finalize\<close> against its specification: it succeeds exactly on the configurations with a proxy, a
  known stack mode, an MTU that is not negative, parseable excluded prefixes and, when one is given, a
  parseable resolver; the result is then the specified runtime view, with the defaults filled in.\<close>

theorem Finalize_spec: "Finalize c = Inr r \<longleftrightarrow> config_ok c \<and> r = finalized c"
  by (rule Finalize_cases)

text \<open>C26. Every runtime view is well formed: a nonempty proxy, one of the two stack modes, a positive
  MTU, nonzero timeouts, a valid resolver address, valid and masked prefixes, and a sorted list of
  distinct nonempty process names.\<close>

theorem Finalize_wellformed:
  assumes "Finalize c = Inr r"
  shows "rt_Proxy r \<noteq> [] \<and> rt_TunName r \<noteq> [] \<and> rt_StackMode r \<in> {''gvisor'', ''simple''} \<and> 0 < rt_MTU r \<and>
    rt_UDPTimeout r \<noteq> 0 \<and> rt_ExcludeRefresh r \<noteq> 0 \<and> AddrPort_IsValid (rt_DNS r) \<and>
    list_all (\<lambda>p. Prefix_IsValid p \<and> Masked p = p) (rt_ExcludedIPs r) \<and>
    sorted (rt_ExcludedProcesses r) \<and> distinct (rt_ExcludedProcesses r) \<and> [] \<notin> set (rt_ExcludedProcesses r)"
proof -
  have ok: "config_ok c" and r: "r = finalized c" using assms Finalize_cases by blast+
  have "AddrPort_IsValid (rt_DNS r)"
  proof (cases "TrimSpace (DNS c) = []")
    case False
    with ok obtain a where "parseAddrPort (DNS c) = Inr a" by (cases "parseAddrPort (DNS c)") (auto simp: config_ok_def)
    with False show ?thesis
      by (auto simp: r finalized_def parseAddrPort_def Let_def dest: ParseAddrPort_valid split: option.splits)
  qed (simp add: r finalized_def AddrPort_IsValid_def)
  moreover have "Prefix_IsValid (projr (parse_prefix_entry s)) \<and> Masked (projr (parse_prefix_entry s)) = projr (parse_prefix_entry s)"
    if "s \<in> set (prefix_entries (ExcludedIPs c))" for s
    using ok that by (cases "parse_prefix_entry s") (auto simp: config_ok_def list_all_iff dest: parse_prefix_entry_valid)
  moreover have "0 < pick 0 (MTU c) 1500" "pick [] (TunName c) ''nano0'' \<noteq> []" "Proxy c \<noteq> []"
    using ok by (auto simp: config_ok_def pick_def)
  ultimately show ?thesis
    by (auto simp: r finalized_def list_all_iff normalizeProcessList_sorted normalizeProcessList_set)
qed

text \<open>C27. The precedence of the three layers, in the result: a field that the command line sets to a
  nonzero value has that value, otherwise a nonzero value of the file counts, otherwise the default; the
  stack mode, the resolver and the excluded addresses are parsed from the value that counts; automatic routes are on when the file or the command line turns them on, so that neither can turn off
  what the other turned on.\<close>

theorem loadRuntimeConfig_precedence:
  assumes "loadRuntimeConfig readFile unmarshal fl = Inr r"
  shows "\<exists>f. LoadFile readFile unmarshal (fl_config fl) = Inr f \<and>
    rt_TunName r = pick [] (changed [] (fl_tun fl)) (pick [] (TunName f) ''nano0'') \<and>
    rt_MTU r = pick 0 (changed 0 (fl_mtu fl)) (pick 0 (MTU f) 1500) \<and>
    parseStackMode (pick [] (changed [] (fl_stack fl)) (pick [] (StackMode f) ''gvisor'')) = Inr (rt_StackMode r) \<and>
    rt_Proxy r = pick [] (changed [] (fl_proxy fl)) (Proxy f) \<and>
    (let dns = pick [] (changed [] (fl_dns fl)) (DNS f) in
     if TrimSpace dns = [] then rt_DNS r = AddrPort (V4 0x08080808) 53 else parseAddrPort dns = Inr (rt_DNS r)) \<and>
    rt_UDPTimeout r = pick 0 (changed 0 (fl_udp_timeout fl)) (pick 0 (UDPTimeout f) minute_ns) \<and>
    rt_ExcludeRefresh r = pick 0 (changed 0 (fl_exclude_refresh fl)) (pick 0 (ExcludeRefresh f) (15 * second_ns)) \<and>
    rt_ExcludedProcesses r = normalizeProcessList (pick [] (changed [] (fl_exclude fl)) (ExcludedProcesses f)) \<and>
    parsePrefixList (pick [] (changed [] (fl_exclude_ip fl)) (ExcludedIPs f)) = Inr (rt_ExcludedIPs r) \<and>
    rt_LogLevel r = pick [] (changed [] (fl_log_level fl)) (pick [] (LogLevel f) ''info'') \<and>
    rt_LogDir r = pick [] (changed [] (fl_log_dir fl)) (pick [] (LogDir f) ''logs'') \<and>
    rt_AutoDefaultRoute r = (AutoDefaultRoute f \<or> fl_auto_route fl = Some True)"
proof -
  obtain f where f: "LoadFile readFile unmarshal (fl_config fl) = Inr f"
    and "Finalize (Merge (Merge Default f) (overrides fl)) = Inr r"
    using assms by (auto simp: loadRuntimeConfig_def split: sum.splits)
  then have r: "config_ok (Merge f (overrides fl))" "r = finalized (Merge f (overrides fl))"
    by (simp_all add: Finalize_absorb Finalize_cases)
  then have "parsePrefixList (ExcludedIPs (Merge f (overrides fl))) = Inr (rt_ExcludedIPs r)"
    by (simp add: parsePrefixList_cases config_ok_def finalized_def)
  moreover note merged_mode [OF r(1)] merged_dns [OF r(1)]
  ultimately show ?thesis
    using f by (intro exI [of _ f] conjI) (simp_all only: r(2) finalized_def Runtime.simps Merge_pick pick_pick overrides_fields)
qed

text \<open>The normalized process list: the distinct nonempty normal forms of the configured names, sorted;
  two lists with the same normal forms give the same result.\<close>

theorem normalizeProcessList_spec:
  "normalizeProcessList names = sorted_list_of_set (Normalize ` set names - {[]})"
proof -
  have "normalizeProcessList names = sorted_list_of_set (set (normalizeProcessList names))"
    by (simp add: sorted_list_of_set.idem_if_sorted_distinct normalizeProcessList_sorted)
  then show ?thesis by (simp only: normalizeProcessList_set)
qed

text \<open>An excluded address without a prefix length stands for that address alone, and an excluded
  prefix for its block: an entry \<open>s\<close> that parses to the address \<open>a\<close> is accepted when it has no zone, and
  contains exactly the addresses equal to \<open>a\<close>.\<close>

theorem bare_address_entry:
  assumes "ParseAddr s = Some a" "Addr_Zone a = []" "\<not> Contains s ''/''"
  shows "\<exists>p. parse_prefix_entry s = Inr p \<and> (\<forall>b. Prefix_Contains p b \<longleftrightarrow> b = a)"
proof -
  define n :: nat where "n = (if Addr_Is4 a then 32 else 128)"
  have a: "Addr_IsValid a" using assms(1) by (rule ParseAddr_valid)
  then have n: "BitLen a = n" by (cases a) (auto simp: n_def)
  have "ParsePrefix (s @ (if Addr_Is4 a then ''/32'' else ''/128'')) = Some (Prefix a n)"
    using assms(1,2) n a by (cases a) (simp_all add: ParsePrefix_def LastIndexByte_append n_def Atoi_def dec_val_def
        is_digit_def digit_val_def)
  then have "parse_prefix_entry s = Inr (Masked (Prefix a n))"
    using assms(1,3) by (auto simp: parse_prefix_entry_def)
  moreover have "Prefix_Contains (Prefix a n) b \<longleftrightarrow> b = a" for b
    using a assms(2) bare_contains [of _ b] by (cases a) (simp_all add: n_def)
  ultimately show ?thesis by (intro exI [of _ "Masked (Prefix a n)"]) (simp only: Contains_Masked simp_thms)
qed

section \<open>Witnesses\<close>

definition wit_config :: Config where
  "wit_config = Config_zero\<lparr>Proxy := ''127.0.0.1:1080'', ExcludedIPs := ['' 10.8.0.0/16''], DNS := ''1.1.1.1''\<rparr>"

definition wit_flags :: Flags where
  "wit_flags = \<lparr>fl_config = [], fl_tun = None, fl_mtu = Some 9000, fl_stack = Some ''Simple'', fl_proxy = Some ''127.0.0.1:1080'',
     fl_dns = Some ''1.1.1.1:5353'', fl_auto_route = Some True, fl_udp_timeout = None, fl_exclude = None, fl_exclude_refresh = None,
     fl_exclude_ip = None, fl_log_level = None, fl_log_dir = None\<rparr>"

lemma wit_config_final: "Finalize wit_config = Inr (finalized wit_config)"
proof -
  have "config_ok wit_config"
    by (simp add: config_ok_def wit_config_def Config_zero_def prefix_entries_def parse_prefix_entry_def parseAddrPort_def
        go_defs Contains_def)
  then show ?thesis by (simp add: Finalize_cases)
qed

theorem Finalize_wellformed_witness: "0 < rt_MTU (finalized wit_config)"
  using Finalize_wellformed [OF wit_config_final] by blast

lemma wit_flags_load:
  "loadRuntimeConfig (\<lambda>p. Inl []) (\<lambda>b. Inl []) wit_flags = Inr (finalized (overrides wit_flags))"
proof -
  have "config_ok (Merge Config_zero (overrides wit_flags))"
    "finalized (Merge Config_zero (overrides wit_flags)) = finalized (overrides wit_flags)"
    by (simp_all add: config_ok_def finalized_def wit_flags_def Config_zero_def prefix_entries_def overrides_def changed_def
        Merge_def parseAddrPort_def Contains_def go_defs)
  then show ?thesis
    by (simp add: loadRuntimeConfig_def LoadFile_def wit_flags_def [THEN arg_cong [where f = fl_config]] go_defs
        Finalize_absorb Finalize_cases del: Merge_fields)
qed

theorem loadRuntimeConfig_precedence_witness:
  "rt_MTU (finalized (overrides wit_flags)) = 9000 \<and> rt_StackMode (finalized (overrides wit_flags)) = ''simple'' \<and>
   rt_DNS (finalized (overrides wit_flags)) = AddrPort (V4 0x01010101) 5353 \<and> rt_AutoDefaultRoute (finalized (overrides wit_flags))"
proof -
  have v: "parseStackMode ''Simple'' = Inr ''simple''" "parseAddrPort ''1.1.1.1:5353'' = Inr (AddrPort (V4 0x01010101) 5353)" "TrimSpace ''1.1.1.1:5353'' \<noteq> []"
    by (simp_all add: parseStackMode_def parseAddrPort_def go_defs Contains_def)
  show ?thesis
    using loadRuntimeConfig_precedence [OF wit_flags_load] v
    by (elim exE conjE) (simp add: wit_flags_def changed_def pick_def Let_def)
qed

theorem bare_address_entry_witness:
  "\<exists>p. parse_prefix_entry ''192.0.2.7'' = Inr p \<and> (\<forall>b. Prefix_Contains p b \<longleftrightarrow> b = V4 0xC0000207)"
  by (rule bare_address_entry) (simp_all add: go_defs)

end
