(* ===== verification/Log_Writer.thy ===== *)
theory Log_Writer
  imports Proc_Name
begin

text \<open>
  Package \<^verbatim>\<open>internal/logger\<close>, the file \<^verbatim>\<open>file_writer.go\<close>: the rotating log file. The state is the record of
  the source without its mutex, which every method holds; the log directory is an explicit store, the
  list of its entries with the size of each file. What the clock and the system calls answer during a
  call is the record \<open>log_env\<close>. A time is a civil date and the nanoseconds since midnight, in one time
  zone without changes of offset.
\<close>

section \<open>Dates\<close>

record Time =
  t_year :: nat
  t_month :: nat
  t_day :: nat
  t_nanos :: int

definition isLeap :: "nat \<Rightarrow> bool" where
  [go_defs]: "isLeap y \<longleftrightarrow> y mod 4 = 0 \<and> (y mod 100 \<noteq> 0 \<or> y mod 400 = 0)"

definition daysIn :: "nat \<Rightarrow> nat \<Rightarrow> nat" where
  [go_defs]: "daysIn m y =
     (if m = 2 then (if isLeap y then 29 else 28) else if m \<in> {4, 6, 9, 11} then 30 else 31)"

definition date_ok :: "nat \<Rightarrow> nat \<Rightarrow> nat \<Rightarrow> bool" where
  [go_defs]: "date_ok y m d \<longleftrightarrow> 1 \<le> m \<and> m \<le> 12 \<and> 1 \<le> d \<and> d \<le> daysIn m y"

text \<open>The number of days before a date, counted from the start of year 0.\<close>

definition civil_days :: "nat \<Rightarrow> nat \<Rightarrow> nat \<Rightarrow> int" where
  [go_defs]: "civil_days y m d =
     int y * 365 + int ((y + 3) div 4) - int ((y + 99) div 100) + int ((y + 399) div 400) +
     int (sum_list (map (\<lambda>k. daysIn k y) [1..<m])) + int d - 1"

definition day_ns :: int where
  [go_defs]: "day_ns = 24 * hour_ns"

definition pad2 :: "nat \<Rightarrow> string" where
  [go_defs]: "pad2 n = (if n < 100 then [dec_digit (n div 10), dec_digit (n mod 10)] else Itoa n)"

definition pad4 :: "nat \<Rightarrow> string" where
  [go_defs]: "pad4 n =
     (if n < 10000 then [dec_digit (n div 1000), dec_digit (n div 100 mod 10), dec_digit (n div 10 mod 10), dec_digit (n mod 10)]
      else Itoa n)"

text \<open>\<open>Format\<close> and \<open>Parse\<close> with the layout \<^verbatim>\<open>2006-01-02\<close>.\<close>

definition Format :: "Time \<Rightarrow> string" where
  [go_defs]: "Format t = pad4 (t_year t) @ ''-'' @ pad2 (t_month t) @ ''-'' @ pad2 (t_day t)"

definition Parse :: "string \<Rightarrow> (nat \<times> nat \<times> nat) option" where
  [go_defs]: "Parse s =
     (if length s = 10 \<and> list_all is_digit (take 4 s) \<and> s ! 4 = CHR ''-'' \<and>
         list_all is_digit (take 2 (drop 5 s)) \<and> s ! 7 = CHR ''-'' \<and> list_all is_digit (drop 8 s)
      then let y = dec_val (take 4 s); m = dec_val (take 2 (drop 5 s)); d = dec_val (drop 8 s)
           in if date_ok y m d then Some (y, m, d) else None
      else None)"

text \<open>\<open>now.Sub(parsedDate)\<close>, saturating, where \<open>parsedDate\<close> is midnight of the date.\<close>

definition since_midnight :: "Time \<Rightarrow> nat \<times> nat \<times> nat \<Rightarrow> duration" where
  [go_defs]: "since_midnight t = (\<lambda>(y, m, d).
     max (- (2 ^ 63)) (min (2 ^ 63 - 1)
       ((civil_days (t_year t) (t_month t) (t_day t) - civil_days y m d) * day_ns + t_nanos t)))"

section \<open>State\<close>

datatype entry = DirEntry | FileEntry int

type_synonym logdir = "(string \<times> entry) list"

record LogWriter =
  lw_prefix :: string
  lw_maxSize :: int
  lw_maxAge :: duration
  lw_file :: "string option"
  lw_currentDate :: string
  lw_seq :: int
  lw_size :: int

record log_env =
  e_now :: Time
  e_readdir_ok :: bool
  e_open_ok :: bool
  e_stat_ok :: bool
  e_now2 :: Time
  e_readdir2_ok :: bool
  e_remove_ok :: "string \<Rightarrow> bool"
  e_written :: "nat \<Rightarrow> nat"
  e_write_ok :: bool

definition defaultMaxFileSize :: int where "defaultMaxFileSize = 2 ^ 20"

definition defaultMaxAge :: duration where "defaultMaxAge = 72 * hour_ns"

definition newRotatingFileWriter :: "bool \<Rightarrow> string \<Rightarrow> int \<Rightarrow> duration \<Rightarrow> LogWriter option" where
  "newRotatingFileWriter mkdir_ok prefix maxSize maxAge =
     (let maxSize' = (if maxSize \<le> 0 then defaultMaxFileSize else maxSize);
          maxAge' = (if maxAge \<le> 0 then defaultMaxAge else maxAge)
      in if \<not> mkdir_ok then None
         else Some \<lparr>lw_prefix = prefix, lw_maxSize = maxSize', lw_maxAge = maxAge', lw_file = None,
                    lw_currentDate = [], lw_seq = -1, lw_size = 0\<rparr>)"

section \<open>File names\<close>

definition fileName :: "LogWriter \<Rightarrow> string \<Rightarrow> int \<Rightarrow> string" where
  "fileName w date seq =
     (if seq \<le> 0 then lw_prefix w @ ''-'' @ date @ ''.log''
      else lw_prefix w @ ''-'' @ date @ ''.'' @ Itoa (nat seq) @ ''.log'')"

definition parseFileName :: "LogWriter \<Rightarrow> string \<Rightarrow> (string \<times> int) option" where
  "parseFileName w name =
     (let prefix = lw_prefix w @ ''-'' in
      if \<not> HasPrefix name prefix \<or> \<not> HasSuffix name ''.log'' then None
      else let base = TrimSuffix (TrimPrefix name prefix) ''.log'';
               parts = Split base (CHR ''.'');
               date = parts ! 0
           in if Parse date = None then None
              else if length parts = 1 then Some (date, 0)
              else if length parts = 2 then
                (case Atoi (parts ! 1) of
                   None \<Rightarrow> None
                 | Some n \<Rightarrow> if n < 0 then None else Some (date, n))
              else None)"

section \<open>The directory\<close>

fun entry_name_seq :: "LogWriter \<Rightarrow> string \<Rightarrow> string \<times> entry \<Rightarrow> int option" where
  "entry_name_seq w date (name, DirEntry) = None"
| "entry_name_seq w date (name, FileEntry n) =
     (case parseFileName w name of
        None \<Rightarrow> None
      | Some (fileDate, seq) \<Rightarrow> if fileDate \<noteq> date then None else Some seq)"

fun max_seq :: "LogWriter \<Rightarrow> string \<Rightarrow> logdir \<Rightarrow> int \<Rightarrow> int" where
  "max_seq w date [] maxSeq = maxSeq"
| "max_seq w date (e # es) maxSeq =
     (case entry_name_seq w date e of
        None \<Rightarrow> max_seq w date es maxSeq
      | Some seq \<Rightarrow> if seq > maxSeq then max_seq w date es seq else max_seq w date es maxSeq)"

definition nextSeq :: "log_env \<Rightarrow> logdir \<Rightarrow> LogWriter \<Rightarrow> string \<Rightarrow> int option" where
  "nextSeq env fs w date = (if \<not> e_readdir_ok env then None else Some (max_seq w date fs (-1) + 1))"

text \<open>Whether \<open>cleanupOldLocked\<close> removes an entry.\<close>

definition expired :: "LogWriter \<Rightarrow> Time \<Rightarrow> string \<times> entry \<Rightarrow> bool" where
  "expired w now e =
     (case e of
        (name, DirEntry) \<Rightarrow> False
      | (name, FileEntry n) \<Rightarrow>
          (case parseFileName w name of
             None \<Rightarrow> False
           | Some (fileDate, seq) \<Rightarrow>
               (case Parse fileDate of
                  None \<Rightarrow> False
                | Some ymd \<Rightarrow> since_midnight now ymd > lw_maxAge w)))"

fun cleanup_loop :: "log_env \<Rightarrow> LogWriter \<Rightarrow> Time \<Rightarrow> logdir \<Rightarrow> logdir" where
  "cleanup_loop env w now [] = []"
| "cleanup_loop env w now (e # es) =
     (if expired w now e \<and> e_remove_ok env (fst e) then cleanup_loop env w now es
      else e # cleanup_loop env w now es)"

definition cleanupOldLocked :: "log_env \<Rightarrow> LogWriter \<Rightarrow> Time \<Rightarrow> logdir \<Rightarrow> logdir" where
  "cleanupOldLocked env w now fs = (if \<not> e_readdir2_ok env then fs else cleanup_loop env w now fs)"

text \<open>\<open>os.OpenFile\<close> for appending: the file is created when it is missing; a directory cannot be opened.
  The result is the size of the file.\<close>

definition OpenFile :: "log_env \<Rightarrow> logdir \<Rightarrow> string \<Rightarrow> (int \<times> logdir) option" where
  "OpenFile env fs name =
     (if \<not> e_open_ok env then None
      else case map_of fs name of
             None \<Rightarrow> Some (0, fs @ [(name, FileEntry 0)])
           | Some DirEntry \<Rightarrow> None
           | Some (FileEntry n) \<Rightarrow> Some (n, fs))"

section \<open>Operations\<close>

definition rotate :: "log_env \<Rightarrow> string \<Rightarrow> LogWriter \<Rightarrow> logdir \<Rightarrow> bool \<times> LogWriter \<times> logdir" where
  "rotate env date w fs =
     (let w1 = w\<lparr>lw_file := None\<rparr>;
          seq = (if lw_currentDate w1 \<noteq> date then nextSeq env fs w1 date else Some (lw_seq w1 + 1))
      in case seq of
           None \<Rightarrow> (False, w1, fs)
         | Some s \<Rightarrow>
             let w2 = w1\<lparr>lw_seq := s\<rparr>; name = fileName w2 date s in
             (case OpenFile env fs name of
                None \<Rightarrow> (False, w2, fs)
              | Some (sz, fs') \<Rightarrow>
                  if \<not> e_stat_ok env then (False, w2, fs')
                  else let w3 = w2\<lparr>lw_file := Some name, lw_currentDate := date, lw_size := sz\<rparr>
                       in (True, w3, cleanupOldLocked env w3 (e_now2 env) fs')))"

definition ensureFile :: "log_env \<Rightarrow> string \<Rightarrow> nat \<Rightarrow> LogWriter \<Rightarrow> logdir \<Rightarrow> bool \<times> LogWriter \<times> logdir" where
  "ensureFile env date incoming w fs =
     (if lw_file w \<noteq> None \<and> lw_currentDate w = date \<and> lw_size w + int incoming \<le> lw_maxSize w then (True, w, fs)
      else rotate env date w fs)"

fun append_file :: "string \<Rightarrow> int \<Rightarrow> logdir \<Rightarrow> logdir" where
  "append_file name n [] = []"
| "append_file name n ((name', e) # fs) =
     (if name' = name then (case e of FileEntry k \<Rightarrow> (name', FileEntry (k + n)) # fs | DirEntry \<Rightarrow> (name', e) # fs)
      else (name', e) # append_file name n fs)"

text \<open>\<open>Write\<close>: the number of bytes written, whether there was no error, and the new state.\<close>

definition LogWriter_Write :: "log_env \<Rightarrow> nat \<Rightarrow> LogWriter \<Rightarrow> logdir \<Rightarrow> (nat \<times> bool) \<times> LogWriter \<times> logdir" where
  "LogWriter_Write env len w fs =
     (if len = 0 then ((0, True), w, fs)
      else case ensureFile env (Format (e_now env)) len w fs of
             (False, w', fs') \<Rightarrow> ((0, False), w', fs')
           | (True, w', fs') \<Rightarrow>
               let n = e_written env len in
               ((n, e_write_ok env), w'\<lparr>lw_size := lw_size w' + int n\<rparr>,
                (case lw_file w' of None \<Rightarrow> fs' | Some name \<Rightarrow> append_file name (int n) fs')))"

definition LogWriter_Close :: "LogWriter \<Rightarrow> LogWriter" where
  "LogWriter_Close w = (if lw_file w = None then w else w\<lparr>lw_file := None\<rparr>)"

section \<open>Numbers and dates\<close>

lemma dec_digit_facts [simp]: "n < 10 \<Longrightarrow> is_digit (dec_digit n)" "n < 10 \<Longrightarrow> digit_val (dec_digit n) = n"
  by (simp_all add: is_digit_def digit_val_def dec_digit_def)

lemma dec_val_snoc: "dec_val (s @ [c]) = 10 * dec_val s + digit_val c"
  by (simp add: dec_val_def)

lemma Itoa_digits: "Itoa n \<noteq> [] \<and> list_all is_digit (Itoa n)"
  by (induction n rule: Itoa.induct) (subst Itoa.simps, simp)+

lemma dec_val_Itoa: "dec_val (Itoa n) = n"
  by (induction n rule: Itoa.induct) (subst Itoa.simps, simp add: dec_val_snoc, simp add: dec_val_def)+

lemma Atoi_Itoa: "n < 2 ^ 63 \<Longrightarrow> Atoi (Itoa n) = Some (int n)"
proof -
  assume "n < 2 ^ 63"
  moreover have "is_digit (hd (Itoa n))" using Itoa_digits [of n] by (cases "Itoa n") auto
  then have "hd (Itoa n) \<noteq> CHR ''-''" "hd (Itoa n) \<noteq> CHR ''+''" by (auto simp: is_digit_def)
  moreover have "int n < 2 ^ 63" using \<open>n < 2 ^ 63\<close> by (metis of_nat_less_iff of_nat_numeral of_nat_power)
  ultimately show ?thesis using Itoa_digits [of n] by (simp add: Atoi_def dec_val_Itoa)
qed

lemma length_10:
  assumes "length s = 10"
  obtains a b c d e f g h i j where "s = [a, b, c, d, e, f, g, h, i, j]"
  using assms by (auto simp: numeral_eq_Suc length_Suc_conv)

lemma Parse_chars:
  assumes "Parse s \<noteq> None"
  shows "list_all (\<lambda>c. is_digit c \<or> c = CHR ''-'') s"
proof -
  have p: "length s = 10" "list_all is_digit (take 4 s)" "s ! 4 = CHR ''-''"
      "list_all is_digit (take 2 (drop 5 s))" "s ! 7 = CHR ''-''" "list_all is_digit (drop 8 s)"
    using assms by (auto simp: Parse_def split: if_splits)
  from p(1) obtain a b c d e f g h i j where "s = [a, b, c, d, e, f, g, h, i, j]" by (rule length_10)
  with p show ?thesis by simp
qed

lemma Parse_no_dot: "Parse s \<noteq> None \<Longrightarrow> CHR ''.'' \<notin> set s"
  using Parse_chars [of s] by (auto simp: list_all_iff is_digit_def)

lemma HasPrefix_append [simp]: "HasPrefix (p @ s) p" "TrimPrefix (p @ s) p = s"
  by (simp_all add: HasPrefix_def TrimPrefix_def)

text \<open>What is left of a file name between the prefix and the suffix.\<close>

definition parse_base :: "string \<Rightarrow> (string \<times> int) option" where
  "parse_base base =
     (let parts = Split base (CHR ''.''); date = parts ! 0
      in if Parse date = None then None
         else if length parts = 1 then Some (date, 0)
         else if length parts = 2 then
           (case Atoi (parts ! 1) of None \<Rightarrow> None | Some n \<Rightarrow> if n < 0 then None else Some (date, n))
         else None)"

lemma parseFileName_base: "parseFileName w (lw_prefix w @ ''-'' @ base @ ''.log'') = parse_base base"
proof -
  define p where "p = lw_prefix w @ ''-''"
  have f: "HasPrefix (p @ base @ ''.log'') p" "HasSuffix (p @ base @ ''.log'') ''.log''"
      "TrimSuffix (TrimPrefix (p @ base @ ''.log'') p) ''.log'' = base"
    using HasSuffix_append [of "p @ base" "''.log''"] by (simp_all only: HasPrefix_append TrimSuffix_append append_assoc)
  then have "parseFileName w (p @ base @ ''.log'') = parse_base base"
    unfolding parseFileName_def parse_base_def Let_def p_def [symmetric] f(3) by simp
  then show ?thesis by (simp add: p_def)
qed

lemma parseFileName_fileName:
  assumes "Parse date \<noteq> None" "seq < 2 ^ 63"
  shows "parseFileName w (fileName w date seq) = Some (date, max 0 seq)"
proof (cases "seq \<le> 0")
  case True
  then show ?thesis
    using assms(1) parseFileName_base [of w date] by (simp add: fileName_def parse_base_def Split_none Parse_no_dot Let_def)
next
  case False
  then have "nat seq < 2 ^ 63" using assms(2) by simp
  moreover have "CHR ''.'' \<notin> set (Itoa (nat seq))"
    using Itoa_digits [of "nat seq"] by (auto simp: list_all_iff is_digit_def)
  ultimately have "parse_base (date @ ''.'' @ Itoa (nat seq)) = Some (date, seq)"
    using False assms(1)
    by (simp add: parse_base_def Split_first Split_none Parse_no_dot Atoi_Itoa Let_def split: option.split)
  then show ?thesis
    using False parseFileName_base [of w "date @ ''.'' @ Itoa (nat seq)"] by (simp add: fileName_def)
qed

lemma pad4_facts: "n < 10000 \<Longrightarrow> length (pad4 n) = 4 \<and> list_all is_digit (pad4 n) \<and> dec_val (pad4 n) = n"
proof -
  assume "n < 10000"
  then have "n div 1000 < 10" "n div 100 mod 10 < 10" "n div 10 mod 10 < 10" "n mod 10 < 10" by auto
  moreover have d: "n div 100 = n div 10 div 10" "n div 1000 = n div 10 div 10 div 10"
    by (simp_all flip: div_mult2_eq)
  have "10 * (10 * (10 * (n div 1000) + n div 100 mod 10) + n div 10 mod 10) + n mod 10 = n"
    by (simp only: d mult_div_mod_eq)
  ultimately show ?thesis using \<open>n < 10000\<close> by (simp add: pad4_def dec_val_def)
qed

lemma pad2_facts: "n < 100 \<Longrightarrow> length (pad2 n) = 2 \<and> list_all is_digit (pad2 n) \<and> dec_val (pad2 n) = n"
  by (simp add: pad2_def dec_val_def)

lemma Parse_parts:
  assumes "length a = 4" "length b = 2" "length c = 2" "list_all is_digit a" "list_all is_digit b" "list_all is_digit c"
  shows "Parse (a @ ''-'' @ b @ ''-'' @ c) =
    (if date_ok (dec_val a) (dec_val b) (dec_val c) then Some (dec_val a, dec_val b, dec_val c) else None)"
  using assms by (simp add: Parse_def nth_append Let_def)

lemma date_ok_small: "date_ok y m d \<Longrightarrow> m < 100 \<and> d < 100"
  by (auto simp: date_ok_def daysIn_def split: if_splits)

lemma Parse_Format:
  assumes "date_ok (t_year t) (t_month t) (t_day t)" "t_year t < 10000"
  shows "Parse (Format t) = Some (t_year t, t_month t, t_day t)"
  using assms pad4_facts [of "t_year t"] pad2_facts [of "t_month t"] pad2_facts [of "t_day t"] date_ok_small [OF assms(1)]
  unfolding Format_def by (subst Parse_parts) simp_all

text \<open>The day count steps by one from each date to the next.\<close>

lemma div_up: "0 < k \<Longrightarrow> (y + (k - 1)) div k = y div k + (if y mod k = 0 then 0 else 1)" for y k :: nat
proof -
  assume k: "0 < k"
  have "(y + (k - 1)) div k = (y mod k + (k - 1) + y div k * k) div k" by simp
  also have "\<dots> = y div k + (y mod k + (k - 1)) div k" using k by (intro div_mult_self1) simp
  also have "(y mod k + (k - 1)) div k = (if y mod k = 0 then 0 else 1)"
    using k mod_less_divisor [OF k, of y] by (auto intro!: div_nat_eqI)
  finally show ?thesis .
qed

lemma div_up_step:
  fixes y :: nat
  shows "(y + 4) div 4 = (y + 3) div 4 + (if y mod 4 = 0 then 1 else 0)"
  "(y + 100) div 100 = (y + 99) div 100 + (if y mod 100 = 0 then 1 else 0)"
  "(y + 400) div 400 = (y + 399) div 400 + (if y mod 400 = 0 then 1 else 0)"
  using div_up [of 4 y] div_up [of 100 y] div_up [of 400 y] by (simp_all add: div_add_self2)

lemma days_before_december: "sum_list (map (\<lambda>k. daysIn k y) [1..<12]) = (if isLeap y then 335 else 334)"
  by (simp add: daysIn_def upt_rec)

lemma civil_days_next:
  "civil_days y m (Suc d) = civil_days y m d + 1"
  "1 \<le> m \<Longrightarrow> civil_days y (Suc m) 1 = civil_days y m (daysIn m y) + 1"
  "civil_days (Suc y) 1 1 = civil_days y 12 31 + 1"
proof -
  have "y mod 4 = 0" if "y mod 100 = 0" using that mod_mod_cancel [of 4 100 y] by simp
  moreover have "y mod 100 = 0" if "y mod 400 = 0" using that mod_mod_cancel [of 100 400 y] by simp
  ultimately show "civil_days (Suc y) 1 1 = civil_days y 12 31 + 1"
    using days_before_december [of y] div_up_step [of y]
    by (simp add: civil_days_def isLeap_def add.commute)
qed (simp_all add: civil_days_def)

section \<open>The directory\<close>

lemma parseFileName_prefix: "lw_prefix w = lw_prefix w' \<Longrightarrow> parseFileName w = parseFileName w'"
  by (rule ext) (simp add: parseFileName_def)

lemma entry_name_seq_prefix: "lw_prefix w = lw_prefix w' \<Longrightarrow> entry_name_seq w d e = entry_name_seq w' d e"
  by (cases "(w, d, e)" rule: entry_name_seq.cases) (simp_all add: parseFileName_prefix [of w w'])

lemma fileName_prefix: "lw_prefix w = lw_prefix w' \<Longrightarrow> fileName w d s = fileName w' d s"
  by (simp add: fileName_def)

text \<open>The sequence numbers of a date are at most \<open>k\<close>.\<close>

definition seqs_upto :: "LogWriter \<Rightarrow> string \<Rightarrow> logdir \<Rightarrow> int \<Rightarrow> bool" where
  "seqs_upto w date fs k \<longleftrightarrow> (\<forall>e \<in> set fs. \<forall>s. entry_name_seq w date e = Some s \<longrightarrow> s \<le> k)"

lemma seqs_upto_mono: "seqs_upto w date fs k \<Longrightarrow> k \<le> k' \<Longrightarrow> seqs_upto w date fs k'"
  by (force simp: seqs_upto_def)

lemma max_seq_ge: "k \<le> max_seq w date fs k"
  by (induction w date fs k rule: max_seq.induct) (auto split: option.splits)

lemma max_seq_upto: "seqs_upto w date fs (max_seq w date fs k)"
proof (induction w date fs k rule: max_seq.induct)
  case (2 w date e es k)
  show ?case
  proof (cases "entry_name_seq w date e")
    case None
    with 2 show ?thesis by (simp add: seqs_upto_def)
  next
    case (Some s)
    with 2 max_seq_ge [of s w date es] max_seq_ge [of k w date es] show ?thesis
      by (auto simp: seqs_upto_def)
  qed
qed (simp add: seqs_upto_def)

lemma entry_of_fileName:
  assumes "Parse date \<noteq> None" "0 \<le> s" "s < 2 ^ 63"
  shows "entry_name_seq w date (fileName w date s, FileEntry n) = Some s"
  using parseFileName_fileName [OF assms(1,3)] assms(2) by simp

text \<open>A name with a larger sequence number is not in use, so opening it creates an empty file.\<close>

lemma fresh_open:
  assumes "Parse date \<noteq> None" "0 \<le> s" "s < 2 ^ 63" "seqs_upto w date fs k" "k < s"
    and "OpenFile env fs (fileName w date s) = Some (sz, fs')"
  shows "sz = 0 \<and> fs' = fs @ [(fileName w date s, FileEntry 0)] \<and> map_of fs (fileName w date s) = None"
proof -
  have "map_of fs (fileName w date s) \<noteq> Some (FileEntry n)" for n
  proof
    assume "map_of fs (fileName w date s) = Some (FileEntry n)"
    then have "(fileName w date s, FileEntry n) \<in> set fs" by (rule map_of_SomeD)
    with assms(4) entry_of_fileName [OF assms(1-3)] have "s \<le> k" by (auto simp: seqs_upto_def)
    with assms(5) show False by simp
  qed
  then show ?thesis using assms(6) by (auto simp: OpenFile_def split: if_splits option.splits entry.splits)
qed

lemma cleanup_loop_filter:
  "cleanup_loop env w now fs = filter (\<lambda>e. \<not> (expired w now e \<and> e_remove_ok env (fst e))) fs"
  by (induction fs) auto

lemma cleanup_subset: "set (cleanupOldLocked env w now fs) \<subseteq> set fs"
  by (auto simp: cleanupOldLocked_def cleanup_loop_filter)

lemma cleanup_distinct: "distinct (map fst fs) \<Longrightarrow> distinct (map fst (cleanupOldLocked env w now fs))"
  by (simp add: cleanupOldLocked_def cleanup_loop_filter distinct_map_filter)

lemma append_file_names: "map fst (append_file name n fs) = map fst fs"
  by (induction name n fs rule: append_file.induct) (auto split: entry.split)

lemma append_file_map_of:
  "map_of (append_file name n fs) x =
     (if x = name then map_option (\<lambda>e. case e of FileEntry k \<Rightarrow> FileEntry (k + n) | DirEntry \<Rightarrow> DirEntry) (map_of fs x)
      else map_of fs x)"
  by (induction name n fs rule: append_file.induct) (auto split: entry.split)

lemma append_file_seqs: "seqs_upto w date (append_file name n fs) k \<longleftrightarrow> seqs_upto w date fs k"
proof (induction name n fs rule: append_file.induct)
  case (2 name n name' e fs)
  then show ?case by (cases e) (auto simp: seqs_upto_def)
qed simp

section \<open>The invariant\<close>

text \<open>Names are unique; once a file was opened, the date is a date, and every file of that date has a
  sequence number up to the current one; an open file has the name of the current date and number, and
  the size the writer keeps, unless it was removed.\<close>

definition log_inv :: "LogWriter \<Rightarrow> logdir \<Rightarrow> bool" where
  "log_inv w fs \<longleftrightarrow>
     distinct (map fst fs) \<and>
     (lw_currentDate w \<noteq> [] \<longrightarrow>
        Parse (lw_currentDate w) \<noteq> None \<and> 0 \<le> lw_seq w \<and> seqs_upto w (lw_currentDate w) fs (lw_seq w)) \<and>
     (case lw_file w of
        None \<Rightarrow> True
      | Some name \<Rightarrow> lw_currentDate w \<noteq> [] \<and> name = fileName w (lw_currentDate w) (lw_seq w) \<and>
          (map_of fs name = None \<or> map_of fs name = Some (FileEntry (lw_size w))))"

text \<open>Sequence numbers stay below the range of a 64-bit int, where the increment would wrap.\<close>

definition seqs_small :: "LogWriter \<Rightarrow> logdir \<Rightarrow> bool" where
  "seqs_small w fs \<longleftrightarrow> lw_seq w + 1 < 2 ^ 63 \<and> (\<forall>date. max_seq w date fs (-1) + 1 < 2 ^ 63)"

text \<open>The number the next file gets, and the rotation in terms of it.\<close>

definition next_number :: "LogWriter \<Rightarrow> string \<Rightarrow> logdir \<Rightarrow> int" where
  "next_number w date fs = (if lw_currentDate w \<noteq> date then max_seq w date fs (-1) + 1 else lw_seq w + 1)"

definition opened :: "LogWriter \<Rightarrow> string \<Rightarrow> int \<Rightarrow> int \<Rightarrow> LogWriter" where
  "opened w date s sz =
     w\<lparr>lw_file := None, lw_seq := s, lw_file := Some (fileName w date s), lw_currentDate := date, lw_size := sz\<rparr>"

lemma max_seq_prefix: "lw_prefix w = lw_prefix w' \<Longrightarrow> max_seq w date fs k = max_seq w' date fs k"
  by (induction fs arbitrary: k) (simp_all add: entry_name_seq_prefix [of w w'] split: option.split)

lemma rotate_eq:
  "rotate env date w fs =
     (if lw_currentDate w \<noteq> date \<and> \<not> e_readdir_ok env then (False, w\<lparr>lw_file := None\<rparr>, fs)
      else let s = next_number w date fs in
        case OpenFile env fs (fileName w date s) of
          None \<Rightarrow> (False, w\<lparr>lw_file := None, lw_seq := s\<rparr>, fs)
        | Some (sz, fs') \<Rightarrow>
            if \<not> e_stat_ok env then (False, w\<lparr>lw_file := None, lw_seq := s\<rparr>, fs')
            else (True, opened w date s sz, cleanupOldLocked env (opened w date s sz) (e_now2 env) fs'))"
proof -
  have "max_seq (w\<lparr>lw_file := None\<rparr>) date fs k = max_seq w date fs k" for k
    by (rule max_seq_prefix) simp
  moreover have "fileName (w\<lparr>lw_file := None, lw_seq := k\<rparr>) date k = fileName w date k" for k
    by (simp add: fileName_def)
  ultimately show ?thesis
    by (cases "lw_currentDate w = date"; cases "e_readdir_ok env")
      (simp_all add: rotate_def nextSeq_def next_number_def opened_def Let_def split: option.split prod.split)
qed

lemma rotate_ok:
  assumes inv: "log_inv w fs" and small: "seqs_small w fs" and date: "Parse date \<noteq> None"
    and rot: "rotate env date w fs = (True, w', fs')"
  shows "log_inv w' fs' \<and> lw_file w' = Some (fileName w date (lw_seq w')) \<and> lw_currentDate w' = date \<and>
    lw_size w' = 0 \<and> map_of fs (fileName w date (lw_seq w')) = None \<and>
    lw_prefix w' = lw_prefix w \<and> lw_maxSize w' = lw_maxSize w \<and> lw_maxAge w' = lw_maxAge w"
proof -
  define s where "s = next_number w date fs"
  have ne: "date \<noteq> []" using date by (auto simp: Parse_def)
  have s: "0 \<le> s" "s < 2 ^ 63" "seqs_upto w date fs (s - 1)"
    using inv small max_seq_ge [of "-1" w date fs] max_seq_upto [of w date fs "-1"] ne
    by (auto simp: s_def next_number_def log_inv_def seqs_small_def)
  obtain sz fs1 where opn: "OpenFile env fs (fileName w date s) = Some (sz, fs1)"
    and w': "w' = opened w date s sz" and fs': "fs' = cleanupOldLocked env w' (e_now2 env) fs1"
    using rot unfolding rotate_eq s_def [symmetric] Let_def by (auto split: option.splits if_splits)
  have fresh: "sz = 0" "fs1 = fs @ [(fileName w date s, FileEntry 0)]" "map_of fs (fileName w date s) = None"
    using fresh_open [OF date s _ opn] by simp_all
  have "distinct (map fst fs1)"
    using inv fresh(3) by (auto simp: fresh(2) log_inv_def map_of_eq_None_iff)
  moreover have "seqs_upto w date fs1 s"
    using seqs_upto_mono [OF s(3), of s] entry_of_fileName [OF date s(1,2), of w 0] by (auto simp: fresh(2) seqs_upto_def)
  moreover have cl: "set fs' \<subseteq> set fs1" by (simp add: fs' cleanup_subset)
  ultimately have "distinct (map fst fs')" "seqs_upto w date fs' s"
    by (auto simp: fs' cleanup_distinct seqs_upto_def)
  moreover have "map_of fs' (fileName w date s) = None \<or> map_of fs' (fileName w date s) = Some (FileEntry 0)"
  proof (cases "map_of fs' (fileName w date s)")
    case (Some e)
    then have "(fileName w date s, e) \<in> set fs1" using cl map_of_SomeD by fast
    moreover have "(fileName w date s, e) \<notin> set fs" using fresh(3) by (auto simp: map_of_eq_None_iff image_iff)
    ultimately show ?thesis using Some by (simp add: fresh(2))
  qed simp
  moreover have "lw_prefix w' = lw_prefix w" by (simp add: w' opened_def)
  then have "seqs_upto w' date fs' s \<longleftrightarrow> seqs_upto w date fs' s" "fileName w' date s = fileName w date s"
    using entry_name_seq_prefix [of w' w] fileName_prefix [of w' w] by (simp_all only: seqs_upto_def)
  ultimately show ?thesis
    using date ne s(1) fresh(1,3) by (simp add: log_inv_def w' opened_def)
qed

lemma ensureFile_ok:
  assumes inv: "log_inv w fs" and small: "seqs_small w fs" and date: "Parse date \<noteq> None"
    and ens: "ensureFile env date len w fs = (True, w', fs')"
  shows "log_inv w' fs' \<and> lw_file w' = Some (fileName w date (lw_seq w')) \<and> lw_currentDate w' = date \<and>
    lw_size w' + int len \<le> max (lw_maxSize w) (int len) \<and>
    lw_prefix w' = lw_prefix w \<and> lw_maxSize w' = lw_maxSize w \<and> lw_maxAge w' = lw_maxAge w"
proof (cases "lw_file w \<noteq> None \<and> lw_currentDate w = date \<and> lw_size w + int len \<le> lw_maxSize w")
  case True
  with ens have "w' = w" "fs' = fs" by (auto simp: ensureFile_def)
  with True inv show ?thesis by (auto simp: log_inv_def)
next
  case False
  with ens have "rotate env date w fs = (True, w', fs')" unfolding ensureFile_def by (simp only: if_False)
  from rotate_ok [OF inv small date this] show ?thesis by simp
qed

lemma log_inv_append:
  assumes "log_inv w fs" "lw_file w = Some name"
  shows "log_inv (w\<lparr>lw_size := lw_size w + n\<rparr>) (append_file name n fs)"
proof -
  have "seqs_upto (w\<lparr>lw_size := k\<rparr>) d g b \<longleftrightarrow> seqs_upto w d g b" for k d g b
    by (simp add: seqs_upto_def entry_name_seq_prefix [of "w\<lparr>lw_size := k\<rparr>" w])
  moreover have "fileName (w\<lparr>lw_size := k\<rparr>) d b = fileName w d b" for k d b
    by (rule fileName_prefix) simp
  ultimately show ?thesis
    using assms by (auto simp: log_inv_def append_file_names append_file_map_of append_file_seqs)
qed

section \<open>A run of a writer\<close>

text \<open>A writer from its creation, with every outcome of its calls, while the date of the clock does not go back:
  dates are compared as their texts, the year first. The first argument is the date of the last write.\<close>

inductive log_run :: "string \<Rightarrow> LogWriter \<Rightarrow> logdir \<Rightarrow> bool" where
  start: "newRotatingFileWriter ok prefix maxSize maxAge = Some w \<Longrightarrow> log_run [] w fs"
| written: "log_run d w fs \<Longrightarrow> d \<le> Format (e_now env) \<Longrightarrow> Parse (Format (e_now env)) \<noteq> None \<Longrightarrow> seqs_small w fs \<Longrightarrow>
    LogWriter_Write env len w fs = (r, w', fs') \<Longrightarrow> log_run (Format (e_now env)) w' fs'"
| closed: "log_run d w fs \<Longrightarrow> log_run d (LogWriter_Close w) fs"

text \<open>What every write keeps, also one that fails: the writer's date is not after the last one, and while it is the
  last one the writer's number bounds those in the directory. After a failed rotation to a new date the
  number belongs to the new date already, but then the writer's date is an earlier one.\<close>

definition run_inv :: "string \<Rightarrow> LogWriter \<Rightarrow> logdir \<Rightarrow> bool" where
  "run_inv d w fs \<longleftrightarrow>
     lw_currentDate w \<le> d \<and> (d \<noteq> [] \<and> lw_currentDate w = d \<longrightarrow> 0 \<le> lw_seq w \<and> seqs_upto w d fs (lw_seq w))"

lemma run_number:
  assumes "run_inv d w fs" "d \<le> date" "Parse date \<noteq> None" "seqs_small w fs"
  shows "0 \<le> next_number w date fs" "next_number w date fs < 2 ^ 63" "seqs_upto w date fs (next_number w date fs - 1)"
proof -
  have ne: "date \<noteq> []" using assms(3) by (auto simp: Parse_def)
  have "lw_currentDate w = date \<Longrightarrow> d = date" using assms(1,2) by (auto simp: run_inv_def)
  then show "0 \<le> next_number w date fs" "next_number w date fs < 2 ^ 63" "seqs_upto w date fs (next_number w date fs - 1)"
    using assms(1,4) ne max_seq_ge [of "-1" w date fs] max_seq_upto [of w date fs "-1"]
    by (auto simp: next_number_def run_inv_def seqs_small_def)
qed

lemma seqs_upto_prefix: "lw_prefix w = lw_prefix w' \<Longrightarrow> seqs_upto w date fs k \<longleftrightarrow> seqs_upto w' date fs k"
  using entry_name_seq_prefix [of w w'] by (simp add: seqs_upto_def)

text \<open>The outcomes of a rotation.\<close>

lemma rotate_cases [consumes 1, case_names dir opn stat ok]:
  assumes "rotate env date w fs = (ok, w', fs')"
  obtains "(ok, w', fs') = (False, w\<lparr>lw_file := None\<rparr>, fs)" "lw_currentDate w \<noteq> date"
  | "(ok, w', fs') = (False, w\<lparr>lw_file := None, lw_seq := next_number w date fs\<rparr>, fs)"
  | sz fs1 where "OpenFile env fs (fileName w date (next_number w date fs)) = Some (sz, fs1)"
      "(ok, w', fs') = (False, w\<lparr>lw_file := None, lw_seq := next_number w date fs\<rparr>, fs1)"
  | sz fs1 where "OpenFile env fs (fileName w date (next_number w date fs)) = Some (sz, fs1)"
      "(ok, w', fs') = (True, opened w date (next_number w date fs) sz,
         cleanupOldLocked env (opened w date (next_number w date fs) sz) (e_now2 env) fs1)"
proof (cases "lw_currentDate w \<noteq> date \<and> \<not> e_readdir_ok env")
  case True
  with assms that(1) show thesis by (simp add: rotate_eq)
next
  case False
  define s where "s = next_number w date fs"
  have rot: "(ok, w', fs') = (case OpenFile env fs (fileName w date s) of
      None \<Rightarrow> (False, w\<lparr>lw_file := None, lw_seq := s\<rparr>, fs)
    | Some (sz, fs1) \<Rightarrow>
        if \<not> e_stat_ok env then (False, w\<lparr>lw_file := None, lw_seq := s\<rparr>, fs1)
        else (True, opened w date s sz, cleanupOldLocked env (opened w date s sz) (e_now2 env) fs1))"
    unfolding assms [symmetric] rotate_eq s_def [symmetric] Let_def using False by (simp only: if_False)
  show thesis
  proof (cases "OpenFile env fs (fileName w date s)")
    case None
    with rot that(2) show thesis by (simp add: s_def)
  next
    case (Some p)
    with rot that(3,4) show thesis by (cases p; cases "e_stat_ok env") (simp_all add: s_def)
  qed
qed

lemma run_inv_ensure:
  assumes inv: "run_inv d w fs" and date: "d \<le> date" "Parse date \<noteq> None" and small: "seqs_small w fs"
    and ens: "ensureFile env date len w fs = (ok, w', fs')"
  shows "run_inv date w' fs'" "lw_prefix w' = lw_prefix w" "\<not> ok \<Longrightarrow> lw_file w' = None"
    "ok \<Longrightarrow> lw_file w' \<noteq> lw_file w \<Longrightarrow> \<exists>name. lw_file w' = Some name \<and> map_of fs name = None \<and> lw_size w' = 0"
proof -
  define s where "s = next_number w date fs"
  note num = run_number [OF inv date small, folded s_def]
  have cur: "lw_currentDate w \<le> date" using inv date(1) by (auto simp: run_inv_def)
  have kept: "run_inv date w fs" using inv date(1) cur by (auto simp: run_inv_def)
  have fresh: "sz = 0 \<and> fs1 = fs @ [(fileName w date s, FileEntry 0)] \<and> map_of fs (fileName w date s) = None"
    if "OpenFile env fs (fileName w date s) = Some (sz, fs1)" for sz fs1
    by (rule fresh_open [OF date(2) num _ that]) simp
  have grown: "seqs_upto w date (fs @ [(fileName w date s, FileEntry 0)]) s" "seqs_upto w date fs s"
    using seqs_upto_mono [OF num(3), of s] entry_of_fileName [OF date(2) num(1,2), of w 0] by (auto simp: seqs_upto_def)
  have up: "seqs_upto (w\<lparr>lw_file := None, lw_seq := s\<rparr>) date g k \<longleftrightarrow> seqs_upto w date g k"
      "seqs_upto (opened w date s z) date g k \<longleftrightarrow> seqs_upto w date g k" for g k z
    by (rule seqs_upto_prefix, simp add: opened_def)+
  have upc: "seqs_upto w date (cleanupOldLocked env x t g) k" if "seqs_upto w date g k" for x t g k
    using that cleanup_subset [of env x t g] by (auto simp: seqs_upto_def)
  have "ensureFile env date len w fs = (True, w, fs) \<or> ensureFile env date len w fs = rotate env date w fs"
    by (simp add: ensureFile_def)
  then consider "(ok, w', fs') = (True, w, fs)" | "(ok, w', fs') = rotate env date w fs" unfolding ens by (elim disjE)
  then have "run_inv date w' fs' \<and> lw_prefix w' = lw_prefix w \<and> (\<not> ok \<longrightarrow> lw_file w' = None) \<and>
    (ok \<and> lw_file w' \<noteq> lw_file w \<longrightarrow> (\<exists>name. lw_file w' = Some name \<and> map_of fs name = None \<and> lw_size w' = 0))"
  proof cases
    case 1
    then show ?thesis using kept by simp
  next
    case 2
    from 2 [symmetric, folded s_def] show ?thesis
    proof (cases rule: rotate_cases)
      case dir
      then show ?thesis using cur by (simp add: run_inv_def)
    next
      case opn
      then show ?thesis using cur num(1) grown(2) up(1) by (simp add: run_inv_def s_def)
    next
      case stat
      then show ?thesis using cur num(1) grown(1) up(1) fresh by (simp add: run_inv_def s_def)
    next
      case ok
      then show ?thesis using num(1) upc [OF grown(1)] up(2) fresh by (simp add: run_inv_def s_def) (simp add: opened_def)
    qed
  qed
  then show "run_inv date w' fs'" "lw_prefix w' = lw_prefix w" "\<not> ok \<Longrightarrow> lw_file w' = None"
    "ok \<Longrightarrow> lw_file w' \<noteq> lw_file w \<Longrightarrow> \<exists>name. lw_file w' = Some name \<and> map_of fs name = None \<and> lw_size w' = 0"
    by blast+
qed

lemma run_inv_write:
  assumes "run_inv d w fs" "d \<le> Format (e_now env)" "Parse (Format (e_now env)) \<noteq> None" "seqs_small w fs"
    and "LogWriter_Write env len w fs = (r, w', fs')"
  shows "run_inv (Format (e_now env)) w' fs'"
proof (cases "len = 0")
  case True
  then show ?thesis using assms(1,2,5) by (auto simp: LogWriter_Write_def run_inv_def)
next
  case False
  obtain ok w1 fs1 where e: "ensureFile env (Format (e_now env)) len w fs = (ok, w1, fs1)" by (rule prod_cases3)
  have w: "w' = w1 \<or> w' = w1\<lparr>lw_size := lw_size w1 + int (e_written env len)\<rparr>" "fs' = fs1 \<or> (\<exists>name n. fs' = append_file name n fs1)"
    using assms(5) False e by (auto simp: LogWriter_Write_def Let_def split: bool.splits option.splits)
  have "seqs_upto (w1\<lparr>lw_size := k\<rparr>) d g b \<longleftrightarrow> seqs_upto w1 d g b" for k d g b by (rule seqs_upto_prefix) simp
  with w run_inv_ensure(1) [OF assms(1-4) e] show ?thesis by (auto simp: run_inv_def append_file_seqs)
qed

lemma log_run_inv: "log_run d w fs \<Longrightarrow> run_inv d w fs"
proof (induction rule: log_run.induct)
  case (start ok prefix maxSize maxAge w fs)
  then show ?case by (auto simp: newRotatingFileWriter_def run_inv_def Let_def split: if_splits)
next
  case (written d w fs env len r w' fs')
  then show ?case by (blast intro: run_inv_write)
next
  case (closed d w fs)
  have "seqs_upto (LogWriter_Close w) d g b \<longleftrightarrow> seqs_upto w d g b" for g b by (rule seqs_upto_prefix) (simp add: LogWriter_Close_def)
  then show ?case using closed.IH by (simp add: run_inv_def) (simp add: LogWriter_Close_def)
qed

text \<open>Why the date must not go back: a rotation to a new date that fails when the file is opened has already set the
  number, to 0 when the new date has no file; when the clock then shows the old date again, the next file
  is number 1 of the old date, which may exist.\<close>

lemma reused_after_failed_rotation:
  assumes "lw_currentDate w \<noteq> new" "max_seq w new fs (-1) = -1" "e_readdir_ok env" "\<not> e_open_ok env"
    and "e_open_ok env'" "e_stat_ok env'" "map_of fs (fileName w (lw_currentDate w) 1) = Some (FileEntry n)"
  shows "\<exists>w1 w2 fs2. rotate env new w fs = (False, w1, fs) \<and> ensureFile env' (lw_currentDate w) len w1 fs = (True, w2, fs2) \<and>
    lw_file w2 = Some (fileName w (lw_currentDate w) 1) \<and> lw_size w2 = n"
proof -
  have "fileName (w\<lparr>lw_file := None, lw_seq := 0\<rparr>) d k = fileName w d k" for d k by (rule fileName_prefix) simp
  then show ?thesis
    using assms by (simp add: ensureFile_def rotate_eq next_number_def OpenFile_def opened_def Let_def)
qed

lemma expired_iff:
  "expired w now e \<longleftrightarrow>
     (\<exists>n date seq ymd. snd e = FileEntry n \<and> parseFileName w (fst e) = Some (date, seq) \<and>
        Parse date = Some ymd \<and> lw_maxAge w < since_midnight now ymd)"
  by (cases e; cases "snd e"; cases "parseFileName w (fst e)") (auto simp: expired_def split: option.splits)

section \<open>Properties\<close>

text \<open>C35. The name of a log file determines its date and sequence number: what \<open>parseFileName\<close> reads from
  \<open>fileName\<close> is the date and the number, for every prefix, every date that parses, and every number in
  the range of an int.\<close>

theorem fileName_roundtrip:
  assumes "Parse date \<noteq> None" "0 \<le> seq" "seq < 2 ^ 63"
  shows "parseFileName w (fileName w date seq) = Some (date, seq)"
  using parseFileName_fileName [OF assms(1,3), of w] assms(2) by simp

text \<open>C33. Rotation by date and size: when a write succeeds, the invariant holds again, the open file is the
  one of today's date and the current number, and its size is at most the limit, or that of this one write
  when the write alone is larger than the limit.\<close>

theorem Write_rotates:
  assumes "log_inv w fs" "seqs_small w fs" "Parse (Format (e_now env)) \<noteq> None"
    and "0 < len" "e_written env len \<le> len"
    and "LogWriter_Write env len w fs = ((n, True), w', fs')"
  shows "log_inv w' fs' \<and> lw_currentDate w' = Format (e_now env) \<and>
    lw_file w' = Some (fileName w (Format (e_now env)) (lw_seq w')) \<and>
    lw_size w' \<le> max (lw_maxSize w) (int len)"
proof -
  obtain w1 fs1 where e: "ensureFile env (Format (e_now env)) len w fs = (True, w1, fs1)"
    and w': "w' = w1\<lparr>lw_size := lw_size w1 + int (e_written env len)\<rparr>"
    and fs': "fs' = (case lw_file w1 of None \<Rightarrow> fs1 | Some name \<Rightarrow> append_file name (int (e_written env len)) fs1)"
    using assms(4,6) by (auto simp: LogWriter_Write_def Let_def split: prod.splits bool.splits)
  note ok = ensureFile_ok [OF assms(1-3) e]
  then have "log_inv w' fs'" using log_inv_append by (simp add: w' fs')
  with ok assms(5) show ?thesis by (simp add: w')
qed

text \<open>C34. A log file is never reused: from a new writer through any writes and closes, failed ones included, while
  the date of the clock does not go back and nobody else adds log files of the program to the directory,
  a write that opens another file opens one whose name was not in the directory, so that the file holds
  the bytes of this write alone. The bound keeps the sequence numbers in the range of an int.\<close>

theorem rotation_fresh:
  assumes "log_run d w fs" "d \<le> Format (e_now env)" "Parse (Format (e_now env)) \<noteq> None" "seqs_small w fs"
    and "LogWriter_Write env len w fs = ((n, ok), w', fs')" "lw_file w' = Some name" "lw_file w \<noteq> Some name"
  shows "map_of fs name = None \<and> lw_size w' = int n"
proof -
  note inv = log_run_inv [OF assms(1)]
  obtain r w1 fs1 where e: "ensureFile env (Format (e_now env)) len w fs = (r, w1, fs1)" by (rule prod_cases3)
  have "len \<noteq> 0" using assms(5-7) by (intro notI) (simp add: LogWriter_Write_def)
  with assms(5,6) e run_inv_ensure(3) [OF inv assms(2-4) e]
  have "r" "lw_file w1 = Some name" "lw_size w' = lw_size w1 + int n"
    by (auto simp: LogWriter_Write_def Let_def split: bool.splits)
  with run_inv_ensure(4) [OF inv assms(2-4) e] assms(7) show ?thesis by auto
qed

text \<open>C36. The cleanup removes exactly the expired log files: an entry stays when it is a directory, has
  another name than a log file, is not older than the limit, or could not be removed; nothing is added.\<close>

theorem cleanup_exact:
  "set (cleanupOldLocked env w now fs) =
     {e \<in> set fs. \<not> (e_readdir2_ok env \<and> e_remove_ok env (fst e) \<and>
        (\<exists>n date seq ymd. snd e = FileEntry n \<and> parseFileName w (fst e) = Some (date, seq) \<and>
           Parse date = Some ymd \<and> lw_maxAge w < since_midnight now ymd))}"
  unfolding expired_iff [symmetric] by (auto simp: cleanupOldLocked_def cleanup_loop_filter)

text \<open>The cleanup never removes a file of the current day when the age limit is a day or more.\<close>

theorem cleanup_keeps_today:
  assumes "day_ns \<le> lw_maxAge w" "date_ok (t_year now) (t_month now) (t_day now)" "t_year now < 10000"
    and "t_nanos now < day_ns" "0 \<le> seq" "seq < 2 ^ 63" "(fileName w (Format now) seq, e) \<in> set fs"
  shows "(fileName w (Format now) seq, e) \<in> set (cleanupOldLocked env w now fs)"
proof -
  have p: "Parse (Format now) = Some (t_year now, t_month now, t_day now)"
    using assms(2,3) by (rule Parse_Format)
  then have "parseFileName w (fileName w (Format now) seq) = Some (Format now, seq)"
    using parseFileName_fileName [of "Format now" seq w] assms(5,6) by simp
  moreover have "since_midnight now (t_year now, t_month now, t_day now) \<le> lw_maxAge w"
    using assms(1,4) by (simp add: since_midnight_def day_ns_def)
  ultimately have "\<not> expired w now (fileName w (Format now) seq, e)"
    using p by (auto simp: expired_def split: entry.split)
  with assms(7) show ?thesis by (auto simp: cleanupOldLocked_def cleanup_loop_filter)
qed

text \<open>A write that reports an error before anything was written leaves every existing file as it was:
  the only change in the directory is an empty file that was created and could not be examined; the writer
  has no open file and tries again at the next write.\<close>

theorem failed_rotation:
  assumes "ensureFile env date len w fs = (False, w', fs')"
  shows "lw_file w' = None \<and> lw_currentDate w' = lw_currentDate w \<and>
    (fs' = fs \<or> (\<exists>name. map_of fs name = None \<and> fs' = fs @ [(name, FileEntry 0)]))"
proof -
  have "rotate env date w fs = (False, w', fs')" using assms by (auto simp: ensureFile_def split: if_splits)
  then show ?thesis
    by (auto simp: rotate_eq Let_def OpenFile_def split: if_splits option.splits entry.splits)
qed

section \<open>Witnesses\<close>

definition wit_time :: Time where
  "wit_time = \<lparr>t_year = 2026, t_month = 3, t_day = 5, t_nanos = 10 * hour_ns\<rparr>"

definition wit_log_env :: log_env where
  "wit_log_env = \<lparr>e_now = wit_time, e_readdir_ok = True, e_open_ok = True, e_stat_ok = True, e_now2 = wit_time,
     e_readdir2_ok = True, e_remove_ok = (\<lambda>_. True), e_written = (\<lambda>n. n), e_write_ok = True\<rparr>"

definition wit_writer :: LogWriter where
  "wit_writer = \<lparr>lw_prefix = ''nanotun'', lw_maxSize = 12, lw_maxAge = 72 * hour_ns, lw_file = None,
     lw_currentDate = [], lw_seq = -1, lw_size = 0\<rparr>"

lemma wit_date: "date_ok 2026 3 5" "Format wit_time = ''2026-03-05''" "Parse ''2026-03-05'' = Some (2026, 3, 5)"
  by (simp_all add: wit_time_def go_defs)

lemma wit_log_inv: "log_inv wit_writer []" "seqs_small wit_writer []"
  by (simp_all add: log_inv_def seqs_small_def wit_writer_def)

lemma wit_rotate:
  "ensureFile wit_log_env ''2026-03-05'' 11 wit_writer [] =
     (True, opened wit_writer ''2026-03-05'' 0 0, [(fileName wit_writer ''2026-03-05'' 0, FileEntry 0)])"
proof -
  have "\<not> expired (opened wit_writer ''2026-03-05'' 0 0) wit_time (fileName wit_writer ''2026-03-05'' 0, FileEntry 0)"
    using parseFileName_fileName [of "''2026-03-05''" 0 "opened wit_writer ''2026-03-05'' 0 0"]
      fileName_prefix [of "opened wit_writer ''2026-03-05'' 0 0" wit_writer]
    by (simp add: expired_def wit_date opened_def) (simp add: since_midnight_def wit_time_def day_ns_def wit_writer_def)
  then show ?thesis
    by (simp add: ensureFile_def rotate_eq next_number_def OpenFile_def cleanupOldLocked_def wit_log_env_def Let_def)
      (simp add: wit_writer_def)
qed

theorem fileName_roundtrip_witness: "parseFileName wit_writer (fileName wit_writer ''2026-03-05'' 7) = Some (''2026-03-05'', 7)"
  by (rule fileName_roundtrip) (simp_all add: wit_date)

lemma wit_write: "\<exists>w' fs'. LogWriter_Write wit_log_env 11 wit_writer [] = ((11, True), w', fs')"
proof -
  have "e_now wit_log_env = wit_time" "e_written wit_log_env 11 = 11" "e_write_ok wit_log_env"
    by (simp_all add: wit_log_env_def)
  then show ?thesis by (simp add: LogWriter_Write_def wit_rotate wit_date)
qed

theorem Write_rotates_witness:
  "\<exists>w' fs'. LogWriter_Write wit_log_env 11 wit_writer [] = ((11, True), w', fs') \<and> lw_size w' \<le> max (lw_maxSize wit_writer) 11"
proof -
  obtain w' fs' where w: "LogWriter_Write wit_log_env 11 wit_writer [] = ((11, True), w', fs')" using wit_write by blast
  have "Parse (Format (e_now wit_log_env)) \<noteq> None" "e_written wit_log_env 11 \<le> 11"
    by (simp_all add: wit_log_env_def wit_date)
  then show ?thesis using Write_rotates [OF wit_log_inv _ _ _ w] w by auto
qed

theorem rotation_fresh_witness:
  "\<exists>w' fs'. LogWriter_Write wit_log_env 11 wit_writer [] = ((11, True), w', fs') \<and>
     lw_file w' = Some (fileName wit_writer ''2026-03-05'' 0) \<and> lw_size w' = 11"
proof -
  obtain w' fs' where w: "LogWriter_Write wit_log_env 11 wit_writer [] = ((11, True), w', fs')" using wit_write by blast
  have env: "e_now wit_log_env = wit_time" "e_written wit_log_env 11 = 11" by (simp_all add: wit_log_env_def)
  have f: "lw_file w' = Some (fileName wit_writer ''2026-03-05'' 0)"
    using w by (simp add: LogWriter_Write_def env wit_date wit_rotate) (auto simp: opened_def)
  have "newRotatingFileWriter True ''nanotun'' 12 0 = Some wit_writer" by (simp add: newRotatingFileWriter_def wit_writer_def defaultMaxAge_def)
  then have run: "log_run [] wit_writer []" by (rule log_run.start)
  have "lw_file wit_writer = None" by (simp add: wit_writer_def)
  with rotation_fresh [OF run _ _ wit_log_inv(2) w f] have "lw_size w' = 11" by (simp add: env wit_date)
  with w f show ?thesis by blast
qed

theorem cleanup_keeps_today_witness:
  "(fileName wit_writer (Format wit_time) 1, FileEntry 5) \<in>
     set (cleanupOldLocked wit_log_env wit_writer wit_time [(fileName wit_writer (Format wit_time) 1, FileEntry 5)])"
  by (rule cleanup_keeps_today) (simp_all add: wit_writer_def wit_time_def day_ns_def date_ok_def daysIn_def)

lemma wit_failed:
  "ensureFile (wit_log_env\<lparr>e_open_ok := False\<rparr>) ''2026-03-05'' 11 wit_writer [] = (False, wit_writer\<lparr>lw_seq := 0\<rparr>, [])"
  by (simp add: ensureFile_def rotate_eq next_number_def OpenFile_def wit_log_env_def wit_writer_def Let_def)

theorem failed_rotation_witness: "lw_currentDate (wit_writer\<lparr>lw_seq := 0\<rparr>) = lw_currentDate wit_writer"
  using failed_rotation [OF wit_failed] by blast

end
