(* ===== verification/Nano_Logger.thy ===== *)
theory Nano_Logger
  imports Log_Writer
begin

text \<open>
  Package \<^verbatim>\<open>internal/logger\<close>, the file \<^verbatim>\<open>logger.go\<close>: the log level and the global logger. The rotating
  writers are objects: they live in an explicit store, and the package variable \<open>fileCloser\<close> and the
  logger refer to them by address, so that the logger's output and the value that is closed at the next
  setup are the same object.
\<close>

section \<open>Levels\<close>

definition LevelDebug :: int where [go_defs]: "LevelDebug = -4"

definition LevelInfo :: int where [go_defs]: "LevelInfo = 0"

definition LevelWarn :: int where [go_defs]: "LevelWarn = 4"

definition LevelError :: int where [go_defs]: "LevelError = 8"

definition parseLevel :: "string \<Rightarrow> int" where
  "parseLevel v =
     (let s = ToLower (TrimSpace v) in
      if s = ''debug'' then LevelDebug
      else if s = ''warn'' then LevelWarn
      else if s = ''error'' then LevelError
      else if s = ''none'' \<or> s = ''silent'' then LevelError + 10
      else LevelInfo)"

section \<open>The global logger\<close>

definition defaultLogDir :: string where [go_defs]: "defaultLogDir = ''logs''"

definition defaultLogPrefix :: string where [go_defs]: "defaultLogPrefix = ''nanotun''"

text \<open>A logger: its level, and the address of the rotating writer it writes to beside standard error.\<close>

record Logger =
  lg_level :: int
  lg_writer :: "nat option"

record LoggerState =
  ls_store :: "(string \<times> LogWriter) list"
  ls_fileCloser :: "nat option"
  ls_global :: Logger

definition logger_init :: LoggerState where
  "logger_init = \<lparr>ls_store = [], ls_fileCloser = None, ls_global = \<lparr>lg_level = LevelInfo, lg_writer = None\<rparr>\<rparr>"

definition close_at :: "nat \<Rightarrow> (string \<times> LogWriter) list \<Rightarrow> (string \<times> LogWriter) list" where
  "close_at a ws = (if a < length ws then ws[a := (fst (ws ! a), LogWriter_Close (snd (ws ! a)))] else ws)"

text \<open>\<open>mkdir_ok\<close> says whether a directory can be created.\<close>

definition SetupWithDir :: "(string \<Rightarrow> bool) \<Rightarrow> string \<Rightarrow> string \<Rightarrow> LoggerState \<Rightarrow> LoggerState" where
  "SetupWithDir mkdir_ok level logDir st =
     (let lvl = parseLevel level;
          dir = (if TrimSpace logDir = [] then defaultLogDir else logDir)
      in case newRotatingFileWriter (mkdir_ok dir) defaultLogPrefix defaultMaxFileSize defaultMaxAge of
           None \<Rightarrow> st\<lparr>ls_global := \<lparr>lg_level = lvl, lg_writer = None\<rparr>\<rparr>
         | Some w \<Rightarrow>
             let a = length (ls_store st);
                 store = (case ls_fileCloser st of None \<Rightarrow> ls_store st | Some c \<Rightarrow> close_at c (ls_store st))
             in \<lparr>ls_store = store @ [(dir, w)], ls_fileCloser = Some a,
                 ls_global = \<lparr>lg_level = lvl, lg_writer = Some a\<rparr>\<rparr>)"

definition Setup :: "(string \<Rightarrow> bool) \<Rightarrow> string \<Rightarrow> LoggerState \<Rightarrow> LoggerState" where
  "Setup mkdir_ok level st = SetupWithDir mkdir_ok level [] st"

text \<open>\<open>L\<close> returns the global logger.\<close>

definition L :: "LoggerState \<Rightarrow> Logger" where
  "L st = ls_global st"

text \<open>A log record that a logger accepts is written to its file. A logger that an earlier setup returned still has the
  writer of that setup, whose \<open>Write\<close> opens a file when none is open.\<close>

definition log_to_file :: "Logger \<Rightarrow> log_env \<Rightarrow> nat \<Rightarrow> logdir \<Rightarrow> LoggerState \<Rightarrow> LoggerState" where
  "log_to_file logger env len fs st =
     (case lg_writer logger of
        None \<Rightarrow> st
      | Some a \<Rightarrow>
          if a < length (ls_store st) then
            st\<lparr>ls_store := (ls_store st)[a :=
               (fst (ls_store st ! a), fst (snd (LogWriter_Write env len (snd (ls_store st ! a)) fs)))]\<rparr>
          else st)"

section \<open>Open files\<close>

text \<open>A run: setups, and records written through any of the loggers that were returned so far, which the list holds.
  The set has the writers that were written to through a logger when a later setup had closed them.\<close>

inductive reachable_logger :: "LoggerState \<Rightarrow> Logger list \<Rightarrow> nat set \<Rightarrow> bool" where
  start: "reachable_logger logger_init [L logger_init] {}"
| install: "reachable_logger st loggers late \<Longrightarrow>
    reachable_logger (SetupWithDir mkdir_ok level dir st) (L (SetupWithDir mkdir_ok level dir st) # loggers) late"
| logged: "reachable_logger st loggers late \<Longrightarrow> logger \<in> set loggers \<Longrightarrow>
    reachable_logger (log_to_file logger env len fs st) loggers
      (if lg_writer logger = ls_fileCloser st then late else late \<union> set_option (lg_writer logger))"

text \<open>The invariant: the addresses are in the store, and every writer with an open file is the one that the next setup
  closes, or was written to after a setup had closed it.\<close>

definition logger_inv :: "LoggerState \<Rightarrow> nat set \<Rightarrow> bool" where
  "logger_inv st late \<longleftrightarrow>
     (\<forall>a. ls_fileCloser st = Some a \<longrightarrow> a < length (ls_store st)) \<and>
     (\<forall>a < length (ls_store st). lw_file (snd (ls_store st ! a)) \<noteq> None \<longrightarrow> ls_fileCloser st = Some a \<or> a \<in> late)"

lemma new_writer_closed: "newRotatingFileWriter ok p s a = Some w \<Longrightarrow> lw_file w = None"
  by (auto simp: newRotatingFileWriter_def Let_def split: if_splits)

lemma LogWriter_Close_file [simp]: "lw_file (LogWriter_Close w) = None"
  by (simp add: LogWriter_Close_def)

lemma length_close_at [simp]: "length (close_at a ws) = length ws"
  by (simp add: close_at_def)

lemma close_at_file: "b < length ws \<Longrightarrow> lw_file (snd (close_at a ws ! b)) = (if a = b then None else lw_file (snd (ws ! b)))"
  by (simp add: close_at_def)

lemma logger_inv_setup: "logger_inv st late \<Longrightarrow> logger_inv (SetupWithDir mkdir_ok level dir st) late"
  by (auto simp: logger_inv_def SetupWithDir_def Let_def nth_append close_at_file less_Suc_eq
      dest: new_writer_closed split: option.splits if_splits)

lemma logger_inv_log:
  "logger_inv st late \<Longrightarrow>
   logger_inv (log_to_file logger env len fs st) (if lg_writer logger = ls_fileCloser st then late else late \<union> set_option (lg_writer logger))"
  by (auto simp: logger_inv_def log_to_file_def nth_list_update split: option.splits if_splits)

lemma reachable_logger_inv: "reachable_logger st loggers late \<Longrightarrow> logger_inv st late"
proof (induction rule: reachable_logger.induct)
  case start
  then show ?case by (simp add: logger_inv_def logger_init_def)
next
  case (install st loggers late mkdir_ok level dir)
  then show ?case by (simp add: logger_inv_setup)
next
  case (logged st loggers late logger env len fs)
  then show ?case using logger_inv_log by blast
qed

section \<open>Witness runs\<close>

text \<open>A setup and a record; and two setups with a record through the second logger and then one through the first.\<close>

definition wit_setup :: "LoggerState \<Rightarrow> LoggerState" where "wit_setup = SetupWithDir (\<lambda>_. True) [] []"

definition wit_logger :: LoggerState where
  "wit_logger = log_to_file (L (wit_setup logger_init)) wit_log_env 11 [] (wit_setup logger_init)"

definition wit_late :: LoggerState where
  "wit_late = log_to_file (L (wit_setup logger_init)) wit_log_env 11 []
     (log_to_file (L (wit_setup (wit_setup logger_init))) wit_log_env 11 [] (wit_setup (wit_setup logger_init)))"

lemma wit_write_opens:
  "lw_file w = None \<Longrightarrow> lw_currentDate w = [] \<Longrightarrow> lw_file (fst (snd (LogWriter_Write wit_log_env 11 w []))) \<noteq> None"
  by (simp add: LogWriter_Write_def ensureFile_def rotate_eq next_number_def OpenFile_def opened_def Let_def
      wit_log_env_def [THEN arg_cong [where f = e_now]] wit_date) (simp add: wit_log_env_def)

lemma wit_setup_state:
  "wit_setup st = \<lparr>ls_store = (case ls_fileCloser st of None \<Rightarrow> ls_store st | Some c \<Rightarrow> close_at c (ls_store st)) @
       [(''logs'', the (newRotatingFileWriter True defaultLogPrefix defaultMaxFileSize defaultMaxAge))],
     ls_fileCloser = Some (length (ls_store st)), ls_global = \<lparr>lg_level = LevelInfo, lg_writer = Some (length (ls_store st))\<rparr>\<rparr>"
  by (simp add: wit_setup_def SetupWithDir_def newRotatingFileWriter_def parseLevel_def defaultLogDir_def Let_def go_defs)

lemma wit_logger_open:
  "reachable_logger wit_logger [L (wit_setup logger_init), L logger_init] {}" "length (ls_store wit_logger) = 1"
  "lw_file (snd (ls_store wit_logger ! 0)) \<noteq> None"
proof -
  have closer: "lg_writer (L (wit_setup logger_init)) = ls_fileCloser (wit_setup logger_init)" by (simp add: wit_setup_state L_def)
  have r: "reachable_logger (wit_setup logger_init) [L (wit_setup logger_init), L logger_init] {}"
    unfolding wit_setup_def by (intro reachable_logger.install reachable_logger.start)
  from reachable_logger.logged [OF r, of "L (wit_setup logger_init)" wit_log_env 11 "[]"] closer
  show "reachable_logger wit_logger [L (wit_setup logger_init), L logger_init] {}" by (simp add: wit_logger_def)
  show "length (ls_store wit_logger) = 1" "lw_file (snd (ls_store wit_logger ! 0)) \<noteq> None"
    by (simp_all add: wit_logger_def log_to_file_def wit_setup_state L_def logger_init_def newRotatingFileWriter_def wit_write_opens [simplified])
qed

lemma wit_late_open:
  "\<exists>loggers. reachable_logger wit_late loggers {0}" "length (ls_store wit_late) = 2"
  "lw_file (snd (ls_store wit_late ! 0)) \<noteq> None" "lw_file (snd (ls_store wit_late ! 1)) \<noteq> None"
proof -
  let ?s1 = "wit_setup logger_init" and ?s2 = "wit_setup (wit_setup logger_init)"
  let ?s3 = "log_to_file (L ?s2) wit_log_env 11 [] ?s2"
  have r2: "reachable_logger ?s2 [L ?s2, L ?s1, L logger_init] {}"
    unfolding wit_setup_def by (intro reachable_logger.install reachable_logger.start)
  have w: "lg_writer (L ?s2) = Some 1" "ls_fileCloser ?s2 = Some 1" "lg_writer (L ?s1) = Some 0" "ls_fileCloser ?s3 = Some 1"
    by (simp_all add: wit_setup_state L_def logger_init_def log_to_file_def)
  have "reachable_logger ?s3 [L ?s2, L ?s1, L logger_init] {}"
    using reachable_logger.logged [OF r2, of "L ?s2" wit_log_env 11 "[]"] w by simp
  from reachable_logger.logged [OF this, of "L ?s1" wit_log_env 11 "[]"] w
  show "\<exists>loggers. reachable_logger wit_late loggers {0}" by (auto simp: wit_late_def)
  show "length (ls_store wit_late) = 2" "lw_file (snd (ls_store wit_late ! 0)) \<noteq> None" "lw_file (snd (ls_store wit_late ! 1)) \<noteq> None"
    by (simp_all add: wit_late_def log_to_file_def wit_setup_state L_def logger_init_def newRotatingFileWriter_def close_at_def
        LogWriter_Close_def wit_write_opens [simplified])
qed

section \<open>Properties\<close>

text \<open>C37. Which log files are open, however often the logger is set up and whichever loggers are written through: every
  writer with an open file is the one that the last successful setup installed, or was written to through
  the logger of an earlier setup after it had been closed. So at most one file is open as long as nobody
  keeps an earlier logger; but a record through an earlier logger opens its file again, and a run is
  reachable in which two files are open.\<close>

theorem one_open_log_file:
  "(\<forall>st loggers late a b. reachable_logger st loggers late \<longrightarrow> a < length (ls_store st) \<longrightarrow> lw_file (snd (ls_store st ! a)) \<noteq> None \<longrightarrow>
      (ls_fileCloser st = Some a \<or> a \<in> late) \<and>
      (late = {} \<and> b < length (ls_store st) \<and> lw_file (snd (ls_store st ! b)) \<noteq> None \<longrightarrow> a = b)) \<and>
   (\<exists>st loggers late. reachable_logger st loggers late \<and> length (ls_store st) = 2 \<and>
      lw_file (snd (ls_store st ! 0)) \<noteq> None \<and> lw_file (snd (ls_store st ! 1)) \<noteq> None)"
proof
  have "(ls_fileCloser st = Some a \<or> a \<in> late) \<and> (late = {} \<and> b < length (ls_store st) \<and> lw_file (snd (ls_store st ! b)) \<noteq> None \<longrightarrow> a = b)"
    if "reachable_logger st loggers late" "a < length (ls_store st)" "lw_file (snd (ls_store st ! a)) \<noteq> None" for st loggers late a b
    using reachable_logger_inv [OF that(1)] that(2,3) unfolding logger_inv_def by (metis empty_iff option.inject)
  then show "\<forall>st loggers late a b. reachable_logger st loggers late \<longrightarrow> a < length (ls_store st) \<longrightarrow> lw_file (snd (ls_store st ! a)) \<noteq> None \<longrightarrow>
      (ls_fileCloser st = Some a \<or> a \<in> late) \<and>
      (late = {} \<and> b < length (ls_store st) \<and> lw_file (snd (ls_store st ! b)) \<noteq> None \<longrightarrow> a = b)" by blast
  show "\<exists>st loggers late. reachable_logger st loggers late \<and> length (ls_store st) = 2 \<and>
      lw_file (snd (ls_store st ! 0)) \<noteq> None \<and> lw_file (snd (ls_store st ! 1)) \<noteq> None"
    using wit_late_open by blast
qed

text \<open>The level of the global logger after a setup is the one that was asked for, whether or not the
  log directory can be created; when it cannot, the logger writes to standard error only. The name of the
  level is read without regard to case and surrounding space, and an unknown name means info.\<close>

theorem setup_level:
  "lg_level (L (SetupWithDir mkdir_ok level dir st)) = parseLevel level \<and>
   (lg_writer (L (SetupWithDir mkdir_ok level dir st)) = None \<longleftrightarrow>
      \<not> mkdir_ok (if TrimSpace dir = [] then ''logs'' else dir)) \<and>
   parseLevel (ToLower level) = parseLevel level \<and> parseLevel (TrimSpace level) = parseLevel level"
  by (auto simp: SetupWithDir_def L_def newRotatingFileWriter_def parseLevel_def TrimSpace_ToLower Let_def defaultLogDir_def
      split: option.split)

section \<open>Witness\<close>

theorem one_open_log_file_witness: "ls_fileCloser wit_logger = Some 0"
  using one_open_log_file [THEN conjunct1, rule_format, OF wit_logger_open(1) _ wit_logger_open(3)] by (simp add: wit_logger_open(2))

end
