(* ===== verification/Go_Exec.thy ===== *)
theory Go_Exec
  imports Go_Netip "HOL-Library.Sublist"
begin

text \<open>
  Commands of the operating system, as the program runs them with \<^verbatim>\<open>os/exec\<close>. A command is its
  program and arguments. The system is a parameter, the record \<open>sys\<close>: what a command answers and how it
  changes the world, which programs exist, and how host names resolve; a world \<^typ>\<open>'w\<close> is whatever the
  commands change. The state the program threads also keeps the log of the commands it ran with their
  success, so that properties can speak of the commands themselves.

  The undo lemmas say when a list of commands takes the world back: they are the library behind the
  cleanup functions that the route installers return.
\<close>

section \<open>Running commands\<close>

type_synonym cmd = "string list"

record 'w sys =
  sys_exec :: "cmd \<Rightarrow> 'w \<Rightarrow> (bool \<times> string) \<times> 'w"
  sys_lookPath :: "'w \<Rightarrow> string \<Rightarrow> bool"
  sys_lookupHost :: "'w \<Rightarrow> string \<Rightarrow> string list option"

type_synonym 'w st = "'w \<times> (cmd \<times> bool) list"

text \<open>\<open>run\<close> of the packages \<^verbatim>\<open>tunconf\<close> and \<^verbatim>\<open>autoroute\<close>: whether the command succeeded. The text of the
  error is only logged or wrapped.\<close>

definition run :: "'w sys \<Rightarrow> cmd \<Rightarrow> 'w st \<Rightarrow> bool \<times> 'w st" where
  "run sys c st =
     (case sys_exec sys c (fst st) of ((ok, out), w') \<Rightarrow> (ok, (w', snd st @ [(c, ok)])))"

text \<open>\<open>exec.Command(...).Output()\<close>.\<close>

definition exec_Output :: "'w sys \<Rightarrow> cmd \<Rightarrow> 'w st \<Rightarrow> string option \<times> 'w st" where
  "exec_Output sys c st =
     (case sys_exec sys c (fst st) of
        ((ok, out), w') \<Rightarrow> ((if ok then Some out else None), (w', snd st @ [(c, ok)])))"

text \<open>A list of commands run one after the other, whatever they answer.\<close>

fun run_each :: "'w sys \<Rightarrow> cmd list \<Rightarrow> 'w st \<Rightarrow> 'w st" where
  "run_each sys [] st = st"
| "run_each sys (c # cs) st = run_each sys cs (snd (run sys c st))"

text \<open>A list of commands run until one fails; the flag says that none did.\<close>

fun run_until_error :: "'w sys \<Rightarrow> cmd list \<Rightarrow> 'w st \<Rightarrow> bool \<times> 'w st" where
  "run_until_error sys [] st = (True, st)"
| "run_until_error sys (c # cs) st =
     (let (ok, st') = run sys c st in if \<not> ok then (False, st') else run_until_error sys cs st')"

section \<open>Package net\<close>

text \<open>\<open>net.SplitHostPort\<close>: the last colon separates the port; brackets hold an address with colons.\<close>

definition SplitHostPort :: "string \<Rightarrow> (string \<times> string) option" where
  [go_defs]: "SplitHostPort s =
     (case LastIndexByte s (CHR '':'') of
        None \<Rightarrow> None
      | Some i \<Rightarrow>
          let port = drop (Suc i) s in
          if hd s = CHR ''['' then
            (case IndexByte s (CHR '']'') of
               None \<Rightarrow> None
             | Some e \<Rightarrow>
                 if Suc e \<noteq> i then None
                 else if CHR ''['' \<in> set (drop 1 s) then None
                 else if CHR '']'' \<in> set (drop (Suc e) s) then None
                 else Some (drop 1 (take e s), port))
          else if CHR '':'' \<in> set (take i s) then None
          else if CHR ''['' \<in> set s then None
          else if CHR '']'' \<in> set s then None
          else Some (take i s, port))"

text \<open>\<open>net.ParseIP(a)\<close> followed by \<open>To4\<close> and \<open>String\<close>: the dotted form of an IPv4 address, mapped or not.\<close>

definition ParseIP_To4_String :: "string \<Rightarrow> string option" where
  [go_defs]: "ParseIP_To4_String a =
     (case ParseAddr a of
        None \<Rightarrow> None
      | Some ip \<Rightarrow>
          if Addr_Zone ip \<noteq> [] then None
          else (case Unmap ip of V4 w \<Rightarrow> Some (appendTo4 w) | _ \<Rightarrow> None))"

section \<open>Logs\<close>

lemma run_log: "snd (snd (run sys c st)) = snd st @ [(c, fst (run sys c st))]"
  by (simp add: run_def split: prod.split)

lemma run_world: "fst (snd (run sys c st)) = snd (sys_exec sys c (fst st))"
  by (simp add: run_def split: prod.split)

lemma run_ok: "fst (run sys c st) = fst (fst (sys_exec sys c (fst st)))"
  by (simp add: run_def split: prod.split)

lemma exec_Output_world: "fst (snd (exec_Output sys c st)) = snd (sys_exec sys c (fst st))"
  by (simp add: exec_Output_def split: prod.split)

lemma exec_Output_log: "\<exists>ok. snd (snd (exec_Output sys c st)) = snd st @ [(c, ok)]"
  by (simp add: exec_Output_def split: prod.split)

lemma run_each_append: "run_each sys (cs @ ds) st = run_each sys ds (run_each sys cs st)"
  by (induction cs arbitrary: st) auto

lemma run_each_log: "map fst (snd (run_each sys cs st)) = map fst (snd st) @ cs"
  by (induction cs arbitrary: st) (auto simp: run_log)

text \<open>The world after a list of commands does not depend on the log.\<close>

fun world_after :: "'w sys \<Rightarrow> cmd list \<Rightarrow> 'w \<Rightarrow> 'w" where
  "world_after sys [] w = w"
| "world_after sys (c # cs) w = world_after sys cs (snd (sys_exec sys c w))"

lemma run_each_world: "fst (run_each sys cs st) = world_after sys cs (fst st)"
  by (induction cs arbitrary: st) (auto simp: run_world)

lemma world_after_append: "world_after sys (cs @ ds) w = world_after sys ds (world_after sys cs w)"
  by (induction cs arbitrary: w) auto

section \<open>Undoing commands\<close>

text \<open>A command without effect, a system where a failed command has no effect, and a command whose effect
  another one takes back.\<close>

definition reads_only :: "'w sys \<Rightarrow> cmd \<Rightarrow> bool" where
  "reads_only sys c \<longleftrightarrow> (\<forall>w. snd (sys_exec sys c w) = w)"

definition fails_clean :: "'w sys \<Rightarrow> bool" where
  "fails_clean sys \<longleftrightarrow> (\<forall>c w. \<not> fst (fst (sys_exec sys c w)) \<longrightarrow> snd (sys_exec sys c w) = w)"

definition undone_by :: "'w sys \<Rightarrow> cmd \<Rightarrow> cmd \<Rightarrow> bool" where
  "undone_by sys c d \<longleftrightarrow>
     (\<forall>w. fst (fst (sys_exec sys c w)) \<longrightarrow> snd (sys_exec sys d (snd (sys_exec sys c w))) = w)"

text \<open>A stack of cleanups, the latest last, takes the world back to \<open>w0\<close>.\<close>

definition restores :: "'w sys \<Rightarrow> cmd list list \<Rightarrow> 'w \<Rightarrow> 'w \<Rightarrow> bool" where
  "restores sys cleanups w w0 \<longleftrightarrow> world_after sys (concat (rev cleanups)) w = w0"

lemma restores_Nil [simp]: "restores sys [] w w0 \<longleftrightarrow> w = w0"
  by (simp add: restores_def)

lemma restores_push:
  "restores sys (cleanups @ [ds]) w w0 \<longleftrightarrow> restores sys cleanups (world_after sys ds w) w0"
  by (simp add: restores_def world_after_append)

lemma restores_run:
  assumes "restores sys cleanups (fst st) w0" "fails_clean sys" "undone_by sys c d" "run sys c st = (ok, st')"
  shows "restores sys (if ok then cleanups @ [[d]] else cleanups) (fst st') w0"
proof -
  have "fst st' = snd (sys_exec sys c (fst st))" "ok = fst (fst (sys_exec sys c (fst st)))"
    using run_world [of sys c st] run_ok [of sys c st] assms(4) by auto
  then show ?thesis
    using assms(1-3) by (auto simp: restores_push fails_clean_def undone_by_def)
qed

lemma reads_only_Output: "reads_only sys c \<Longrightarrow> fst (snd (exec_Output sys c st)) = fst st"
  by (simp add: exec_Output_world reads_only_def)

text \<open>The commands of a list that took effect: a part of the list, in order, each of which succeeded.\<close>

fun all_ok :: "'w sys \<Rightarrow> cmd list \<Rightarrow> 'w \<Rightarrow> bool" where
  "all_ok sys [] w = True"
| "all_ok sys (c # cs) w = (fst (fst (sys_exec sys c w)) \<and> all_ok sys cs (snd (sys_exec sys c w)))"

lemma all_ok_append: "all_ok sys (cs @ ds) w \<longleftrightarrow> all_ok sys cs w \<and> all_ok sys ds (world_after sys cs w)"
  by (induction cs arbitrary: w) auto

lemma world_after_effective:
  assumes "fails_clean sys"
  shows "\<exists>xs. subseq xs cs \<and> all_ok sys xs w \<and> world_after sys cs w = world_after sys xs w"
proof (induction cs arbitrary: w)
  case (Cons c cs)
  show ?case
  proof (cases "fst (fst (sys_exec sys c w))")
    case True
    obtain xs where "subseq xs cs" "all_ok sys xs (snd (sys_exec sys c w))"
        "world_after sys cs (snd (sys_exec sys c w)) = world_after sys xs (snd (sys_exec sys c w))"
      using Cons by blast
    with True show ?thesis by (intro exI [of _ "c # xs"]) auto
  next
    case False
    then have "snd (sys_exec sys c w) = w" using assms by (simp add: fails_clean_def)
    then show ?thesis using Cons [of w] by (metis subseq_Cons' list_emb_Cons world_after.simps(2))
  qed
qed auto

lemma run_until_error_effective:
  assumes "fails_clean sys" "run_until_error sys cs st = (ok, st')"
  shows "\<exists>xs. subseq xs cs \<and> all_ok sys xs (fst st) \<and> fst st' = world_after sys xs (fst st)"
  using assms(2)
proof (induction cs arbitrary: st)
  case (Cons c cs)
  obtain a st1 where r: "run sys c st = (a, st1)" by (cases "run sys c st")
  have w1: "fst st1 = snd (sys_exec sys c (fst st))" "a = fst (fst (sys_exec sys c (fst st)))"
    using run_world [of sys c st] run_ok [of sys c st] r by auto
  show ?case
  proof (cases a)
    case True
    then have "run_until_error sys cs st1 = (ok, st')" using Cons.prems r by simp
    then obtain xs where "subseq xs cs" "all_ok sys xs (fst st1)" "fst st' = world_after sys xs (fst st1)"
      using Cons.IH by blast
    with True w1 show ?thesis by (intro exI [of _ "c # xs"]) auto
  next
    case False
    then have "st' = st1" "fst st1 = fst st" using Cons.prems r w1 assms(1) by (auto simp: fails_clean_def)
    then show ?thesis by (intro exI [of _ "[]"]) simp
  qed
qed auto

text \<open>A group of commands that other commands take back, whichever of the group took effect.\<close>

definition group_undone :: "'w sys \<Rightarrow> cmd list \<Rightarrow> cmd list \<Rightarrow> 'w \<Rightarrow> bool" where
  "group_undone sys cs ds w \<longleftrightarrow>
     (\<forall>xs. subseq xs cs \<longrightarrow> all_ok sys xs w \<longrightarrow> world_after sys ds (world_after sys xs w) = w)"

end
