(* ===== verification/Dns_Relay.thy ===== *)
theory Dns_Relay
  imports Net_Addr
begin

text \<open>
  Package \<^verbatim>\<open>internal/gateway\<close>, the files \<^verbatim>\<open>dns.go\<close>, \<^verbatim>\<open>dns_mark_linux.go\<close> and
  \<^verbatim>\<open>dns_mark_other.go\<close>: the DNS relay. A call of \<open>Handle\<close> or \<open>HandleTCP\<close> is the list of the effects it
  has on its two connections, the client's and the upstream resolver's, in order; the deferred closes
  stand at the end of the part of the list they protect. What the connections answer is an argument: a
  datagram or an error, or for TCP the chunks in which the stream arrives before it ends or fails.
\<close>

section \<open>The socket mark\<close>

datatype GOOS = Linux | Darwin | Windows | OtherOS

definition nanotunMark :: "GOOS \<Rightarrow> nat" where
  "nanotunMark os = (if os = Linux then 0x6e74 else 0)"

text \<open>A dialer: the mark its \<open>Control\<close> function puts on the socket before it connects, if it has one.\<close>

record Dialer =
  d_Control :: "nat option"

definition markDialer :: "GOOS \<Rightarrow> Dialer" where
  "markDialer os = \<lparr>d_Control = (if os = Linux then Some (nanotunMark os) else None)\<rparr>"

text \<open>What the operating system answers to a dial: the error of \<open>RawConn.Control\<close>, the error of
  \<open>setsockopt\<close> for a mark, and whether the socket connects.\<close>

record dial_env =
  control_err :: bool
  setsockopt_err :: "nat \<Rightarrow> bool"
  connects :: bool

definition Dial_ok :: "dial_env \<Rightarrow> Dialer \<Rightarrow> bool" where
  "Dial_ok e d =
     (case d_Control d of
        None \<Rightarrow> connects e
      | Some mark \<Rightarrow> \<not> control_err e \<and> \<not> setsockopt_err e mark \<and> connects e)"

section \<open>Effects\<close>

datatype side = Client | Upstream

datatype event =
    SetReadDeadline side duration
  | SetWriteDeadline side duration
  | SetDeadline side duration
  | Read side
  | DialUp string string "nat option"
  | Connected
  | Write side bytes
  | Close side

definition dnsReadTimeout :: duration where "dnsReadTimeout = 5 * second_ns"

definition dnsForwardTimeout :: duration where "dnsForwardTimeout = 5 * second_ns"

definition dnsBufSize :: nat where "dnsBufSize = 4096"

record DNSRelay =
  dr_upstream :: AddrPort

definition newDNSRelay :: "AddrPort \<Rightarrow> DNSRelay" where
  "newDNSRelay upstream = \<lparr>dr_upstream = upstream\<rparr>"

section \<open>UDP\<close>

text \<open>A read returns one datagram, cut to the size of the buffer.\<close>

record udp_env =
  u_query :: "bytes option"
  u_dial :: dial_env
  u_write_ok :: bool
  u_response :: "bytes option"

definition Handle :: "GOOS \<Rightarrow> DNSRelay \<Rightarrow> udp_env \<Rightarrow> event list" where
  "Handle os r e =
     [SetReadDeadline Client dnsReadTimeout, Read Client] @
     (case u_query e of
        None \<Rightarrow> []
      | Some d \<Rightarrow>
          let query = take dnsBufSize d in
          [DialUp ''udp'' (AddrPort_String (dr_upstream r)) (d_Control (markDialer os))] @
          (if \<not> Dial_ok (u_dial e) (markDialer os) then []
           else
             [Connected, SetDeadline Upstream dnsForwardTimeout, Write Upstream query] @
             (if \<not> u_write_ok e then []
              else
                [Read Upstream] @
                (case u_response e of
                   None \<Rightarrow> []
                 | Some m \<Rightarrow>
                     let resp = take dnsBufSize m in
                     [SetWriteDeadline Client dnsReadTimeout, Write Client resp])) @
             [Close Upstream])) @
     [Close Client]"

section \<open>TCP\<close>

text \<open>\<open>io.ReadFull\<close> on a stream that arrives in chunks; the end of the list is the end of the stream or
  an error of the connection. The result is what was read and the rest of the stream.\<close>

fun ReadFull :: "nat \<Rightarrow> bytes list \<Rightarrow> (bytes \<times> bytes list) option" where
  "ReadFull n [] = (if n = 0 then Some ([], []) else None)"
| "ReadFull n (c # cs) =
     (if n = 0 then Some ([], c # cs)
      else if length c \<le> n then map_option (\<lambda>(b, r). (c @ b, r)) (ReadFull (n - length c) cs)
      else Some (take n c, drop n c # cs))"

definition Uint16 :: "bytes \<Rightarrow> nat" where
  "Uint16 b = unat (b ! 0) * 256 + unat (b ! 1)"

definition PutUint16 :: "nat \<Rightarrow> bytes" where
  "PutUint16 n = [of_nat (n mod 2 ^ 16 div 256), of_nat (n mod 2 ^ 16 mod 256)]"

text \<open>The read of one length-prefixed message, as it stands twice in \<open>HandleTCP\<close>: the error cases, then
  the message. The prefix and the message are read separately.\<close>

definition read_message :: "bytes list \<Rightarrow> (bytes \<times> bytes list) option" where
  "read_message cs =
     (case ReadFull 2 cs of
        None \<Rightarrow> None
      | Some (lenBuf, cs') \<Rightarrow>
          let msgLen = Uint16 lenBuf in
          if msgLen = 0 \<or> msgLen > dnsBufSize then None
          else ReadFull msgLen cs')"

record tcp_env =
  t_client :: "bytes list"
  t_dial :: dial_env
  t_write_ok :: bool
  t_upstream :: "bytes list"

definition HandleTCP :: "GOOS \<Rightarrow> DNSRelay \<Rightarrow> tcp_env \<Rightarrow> event list" where
  "HandleTCP os r e =
     [SetReadDeadline Client dnsReadTimeout, Read Client] @
     (case read_message (t_client e) of
        None \<Rightarrow> []
      | Some (query, _) \<Rightarrow>
          [DialUp ''tcp'' (AddrPort_String (dr_upstream r)) (d_Control (markDialer os))] @
          (if \<not> Dial_ok (t_dial e) (markDialer os) then []
           else
             [Connected, SetDeadline Upstream dnsForwardTimeout,
              Write Upstream (PutUint16 (length query) @ query)] @
             (if \<not> t_write_ok e then []
              else
                [Read Upstream] @
                (case read_message (t_upstream e) of
                   None \<Rightarrow> []
                 | Some (resp, _) \<Rightarrow>
                     [SetWriteDeadline Client dnsReadTimeout,
                      Write Client (PutUint16 (length resp) @ resp)])) @
             [Close Upstream])) @
     [Close Client]"

section \<open>Framing\<close>

lemma ReadFull_concat:
  "ReadFull n cs = None \<longleftrightarrow> length (concat cs) < n"
  "ReadFull n cs = Some (b, r) \<Longrightarrow> b = take n (concat cs) \<and> concat r = drop n (concat cs)"
proof (induction n cs arbitrary: b r rule: ReadFull.induct)
  case (2 n c cs)
  { case 1
    then show ?case using 2 by (auto simp: not_le) }
  { case 2
    then show ?case using "2.IH" by (auto split: if_splits) }
qed (auto split: if_splits)

text \<open>The reference: the message at the head of a flat stream.\<close>

definition dns_message :: "bytes \<Rightarrow> bytes option" where
  "dns_message s =
     (if length s < 2 then None
      else let n = Uint16 s in
        if n = 0 \<or> dnsBufSize < n \<or> length s < 2 + n then None else Some (take n (drop 2 s)))"

definition frame :: "bytes \<Rightarrow> bytes" where
  "frame m = PutUint16 (length m) @ m"

lemma read_message_flat: "map_option fst (read_message cs) = dns_message (concat cs)"
proof (cases "ReadFull 2 cs")
  case None
  then show ?thesis using ReadFull_concat(1) [of 2 cs] by (simp add: read_message_def dns_message_def)
next
  case (Some p)
  then obtain b r where p: "ReadFull 2 cs = Some (b, r)" by (cases p) auto
  have br: "b = take 2 (concat cs)" "concat r = drop 2 (concat cs)" "2 \<le> length (concat cs)"
    using ReadFull_concat [of 2 cs] p by auto
  then have u: "Uint16 (concat cs) = Uint16 b" by (simp add: Uint16_def)
  have none: "ReadFull (Uint16 b) r = None \<longleftrightarrow> length (concat cs) < 2 + Uint16 b"
    using ReadFull_concat(1) [of "Uint16 b" r] br by auto
  have some: "fst q = take (Uint16 b) (drop 2 (concat cs))" if "ReadFull (Uint16 b) r = Some q" for q
    using ReadFull_concat(2) [of "Uint16 b" r "fst q" "snd q"] that br(2) by simp
  have "map_option fst (ReadFull (Uint16 b) r) =
      (if length (concat cs) < 2 + Uint16 b then None else Some (take (Uint16 b) (drop 2 (concat cs))))"
    by (cases "ReadFull (Uint16 b) r") (use none some in auto)
  with br(3) none show ?thesis
    by (simp add: read_message_def dns_message_def p Let_def u del: length_concat)
qed

lemma PutUint16_value:
  assumes "n < 2 ^ 16"
  obtains h l where "PutUint16 n = [h, l]" "unat h * 256 + unat l = n"
proof
  have "n div 256 < 256" using assms by (simp add: less_mult_imp_div_less)
  then show "unat (of_nat (n div 256) :: byte) * 256 + unat (of_nat (n mod 256) :: byte) = n"
    by (simp add: unat_of_nat)
  show "PutUint16 n = [of_nat (n div 256), of_nat (n mod 256)]"
    using assms by (simp add: PutUint16_def)
qed

lemma dns_message_frame:
  assumes "1 \<le> length m" "length m \<le> dnsBufSize"
  shows "dns_message (frame m @ rest) = Some m"
proof -
  have "length m < 2 ^ 16" using assms(2) by (simp add: dnsBufSize_def)
  then obtain h l where "PutUint16 (length m) = [h, l]" "unat h * 256 + unat l = length m"
    by (rule PutUint16_value)
  then show ?thesis using assms by (auto simp: dns_message_def frame_def Uint16_def Let_def)
qed

lemma dns_message_length: "dns_message s = Some m \<Longrightarrow> 1 \<le> length m \<and> length m \<le> dnsBufSize"
  by (auto simp: dns_message_def Let_def split: if_splits)

section \<open>The life of the connections\<close>

text \<open>A checker for a list of effects: the two arguments say which connection is open. No effect
  touches a connection that is not open, no connection is opened twice, and at the end both are
  closed.\<close>

fun side_open :: "bool \<times> bool \<Rightarrow> side \<Rightarrow> bool" where
  "side_open (c, u) Client = c"
| "side_open (c, u) Upstream = u"

fun conn_step :: "bool \<times> bool \<Rightarrow> event \<Rightarrow> (bool \<times> bool) option" where
  "conn_step (c, u) (Close Client) = (if c then Some (False, u) else None)"
| "conn_step (c, u) (Close Upstream) = (if u then Some (c, False) else None)"
| "conn_step (c, u) Connected = (if u then None else Some (c, True))"
| "conn_step s (SetReadDeadline w d) = (if side_open s w then Some s else None)"
| "conn_step s (SetWriteDeadline w d) = (if side_open s w then Some s else None)"
| "conn_step s (SetDeadline w d) = (if side_open s w then Some s else None)"
| "conn_step s (Read w) = (if side_open s w then Some s else None)"
| "conn_step s (Write w b) = (if side_open s w then Some s else None)"
| "conn_step s (DialUp n a m) = Some s"

fun conn_run :: "bool \<times> bool \<Rightarrow> event list \<Rightarrow> (bool \<times> bool) option" where
  "conn_run s [] = Some s"
| "conn_run s (ev # evs) = (case conn_step s ev of None \<Rightarrow> None | Some s' \<Rightarrow> conn_run s' evs)"

text \<open>The messages that pass between the two sides, and the dials.\<close>

fun is_traffic :: "event \<Rightarrow> bool" where
  "is_traffic (Write w b) = True"
| "is_traffic (DialUp n a m) = True"
| "is_traffic _ = False"

fun carries_mark :: "nat option \<Rightarrow> event \<Rightarrow> bool" where
  "carries_mark mark (DialUp n a m) = (m = mark)"
| "carries_mark mark _ = True"

fun write_within :: "nat \<Rightarrow> nat \<Rightarrow> event \<Rightarrow> bool" where
  "write_within lo hi (Write w b) = (lo \<le> length b \<and> length b \<le> hi)"
| "write_within lo hi _ = True"

text \<open>The contract of a relay: it owns the connection it is given and closes both, and every dial it
  makes carries the mark. \<open>'e\<close> is what the environment answers.\<close>

locale relay_contract =
  fixes serve :: "GOOS \<Rightarrow> DNSRelay \<Rightarrow> 'e \<Rightarrow> event list"
  assumes serve_run: "conn_run (True, False) (serve os r e) = Some (False, False)"
    and serve_dials: "DialUp n a m \<in> set (serve os r e) \<Longrightarrow>
      a = AddrPort_String (dr_upstream r) \<and> m = d_Control (markDialer os)"
begin

lemma dial_marked: "list_all (carries_mark (Some (nanotunMark Linux))) (serve Linux r e)"
proof -
  have "carries_mark (Some (nanotunMark Linux)) ev" if "ev \<in> set (serve Linux r e)" for ev
    using that serve_dials [of _ _ _ Linux r e]
    by (cases "(Some (nanotunMark Linux), ev)" rule: carries_mark.cases) (auto simp: markDialer_def)
  then show ?thesis by (simp add: list_all_iff)
qed

lemma client_closed: "Close Client \<in> set (serve os r e)"
proof (rule ccontr)
  assume "Close Client \<notin> set (serve os r e)"
  moreover have "Close Client \<notin> set evs \<Longrightarrow> conn_run (True, u) evs = Some (c, u') \<Longrightarrow> c" for evs u c u'
  proof (induction evs arbitrary: u)
    case (Cons ev evs)
    then show ?case
      by (cases "((True, u), ev)" rule: conn_step.cases) (auto split: if_splits option.splits)
  qed simp
  ultimately show False using serve_run [of os r e] by blast
qed

end

lemma Handle_run: "conn_run (True, False) (Handle os r e) = Some (False, False)"
  by (simp add: Handle_def Let_def split: option.split)

lemma HandleTCP_run: "conn_run (True, False) (HandleTCP os r e) = Some (False, False)"
  by (simp add: HandleTCP_def split: option.split prod.split)

lemma Handle_dials:
  "DialUp n a m \<in> set (Handle os r e) \<Longrightarrow> a = AddrPort_String (dr_upstream r) \<and> m = d_Control (markDialer os)"
  by (auto simp: Handle_def Let_def split: option.splits if_splits)

lemma HandleTCP_dials:
  "DialUp n a m \<in> set (HandleTCP os r e) \<Longrightarrow> a = AddrPort_String (dr_upstream r) \<and> m = d_Control (markDialer os)"
  by (auto simp: HandleTCP_def split: option.splits prod.splits if_splits)

interpretation udp_relay: relay_contract Handle
  by unfold_locales (simp_all add: Handle_run Handle_dials)

interpretation tcp_relay: relay_contract HandleTCP
  by unfold_locales (simp_all add: HandleTCP_run HandleTCP_dials)

section \<open>Properties\<close>

text \<open>C17. Both relays own the connection they are given: on every path, errors included, the client's
  connection is closed, an upstream connection that was opened is closed, once each, nothing touches a
  connection before it is open or after it is closed, and on Linux every dial carries the netfilter
  mark.\<close>

theorem relays_close_connections:
  "conn_run (True, False) (Handle os r eu) = Some (False, False) \<and>
   conn_run (True, False) (HandleTCP os r et) = Some (False, False) \<and>
   Close Client \<in> set (Handle os r eu) \<and> Close Client \<in> set (HandleTCP os r et) \<and>
   list_all (carries_mark (Some (nanotunMark Linux))) (Handle Linux r eu @ HandleTCP Linux r et)"
  using udp_relay.serve_run tcp_relay.serve_run udp_relay.client_closed tcp_relay.client_closed
    udp_relay.dial_marked tcp_relay.dial_marked
  by simp

text \<open>C16. DNS over TCP refines its specification on flat byte streams: however the two streams are cut
  into chunks, the relay dials exactly when the client's stream starts with a complete message of 1 to
  4096 bytes, forwards that message with its length, and returns exactly the complete message at the
  head of the upstream's stream; nothing else is written to either side.\<close>

theorem HandleTCP_refines:
  "filter is_traffic (HandleTCP os r e) =
     (case dns_message (concat (t_client e)) of
        None \<Rightarrow> []
      | Some q \<Rightarrow> DialUp ''tcp'' (AddrPort_String (dr_upstream r)) (d_Control (markDialer os)) #
          (if Dial_ok (t_dial e) (markDialer os) then Write Upstream (frame q) #
             (if t_write_ok e then
                (case dns_message (concat (t_upstream e)) of None \<Rightarrow> [] | Some a \<Rightarrow> [Write Client (frame a)])
              else [])
           else []))"
  unfolding read_message_flat [symmetric] HandleTCP_def frame_def
  by (cases "read_message (t_client e)"; cases "read_message (t_upstream e)") auto

text \<open>C18. The framing round trip: a message of 1 to 4096 bytes, written with its two-byte length and
  followed by anything, cut into chunks anywhere, is read back exactly, and the rest of the stream is
  left for the next read.\<close>

theorem frame_roundtrip:
  assumes "1 \<le> length m" "length m \<le> dnsBufSize" "concat cs = frame m @ rest"
  shows "\<exists>cs'. read_message cs = Some (m, cs') \<and> concat cs' = rest"
proof -
  have "map_option fst (read_message cs) = Some m"
    using dns_message_frame [OF assms(1,2), of rest] by (simp add: read_message_flat assms(3))
  then obtain cs' where cs': "read_message cs = Some (m, cs')" by (cases "read_message cs") auto
  then obtain b r where "ReadFull 2 cs = Some (b, r)" "ReadFull (Uint16 b) r = Some (m, cs')"
    by (auto simp: read_message_def Let_def split: option.splits if_splits)
  then have "concat cs' = drop (length m) (drop 2 (concat cs))"
    using ReadFull_concat(2) [of 2 cs b r] ReadFull_concat(2) [of "Uint16 b" r m cs']
      ReadFull_concat(1) [of "Uint16 b" r]
    by simp
  then show ?thesis using cs' assms(3) by (simp add: frame_def PutUint16_def)
qed

text \<open>C19. Bounds: what the UDP relay writes is at most 4096 bytes, and what the TCP relay writes is a
  length prefix and 1 to 4096 bytes of message, on either side and on every path.\<close>

theorem relay_write_bounds:
  "list_all (write_within 0 4096) (Handle os r eu) \<and> list_all (write_within 3 4098) (HandleTCP os r et)"
proof
  show "list_all (write_within 0 4096) (Handle os r eu)"
    by (auto simp: Handle_def dnsBufSize_def Let_def split: option.split)
  have "1 \<le> length m \<and> length m \<le> 4096" if "read_message cs = Some (m, cs')" for cs m cs'
    using dns_message_length [of "concat cs" m] that read_message_flat [of cs] by (simp add: dnsBufSize_def)
  from this [of "t_client et"] this [of "t_upstream et"] show "list_all (write_within 3 4098) (HandleTCP os r et)"
    by (auto simp: HandleTCP_def PutUint16_def split: option.split)
qed

section \<open>Witness\<close>

theorem frame_roundtrip_witness: "\<exists>cs'. read_message [[0], [3, 7], [], [8, 9, 1], [2]] = Some ([7, 8, 9], cs') \<and> concat cs' = [1, 2]"
  by (rule frame_roundtrip) (simp_all add: dnsBufSize_def frame_def PutUint16_def)

end
