(* ===== verification/Tun_Conf.thy ===== *)
theory Tun_Conf
  imports Go_Exec Dns_Relay
begin

unbundle bit_operations_syntax

text \<open>
  Package \<^verbatim>\<open>internal/tunconf\<close>: the addresses of the TUN interface, one function for each of the three
  platforms the package is built for. The commands go through the parameter \<open>sys\<close>.
\<close>

section \<open>Operations\<close>

datatype tun_error = SetIPv4 string | BringUp string

definition Configure_linux :: "'w sys \<Rightarrow> string \<Rightarrow> 'w st \<Rightarrow> tun_error option \<times> 'w st" where
  "Configure_linux sys name st =
     (let (ok4, st1) = run sys [''ip'', ''addr'', ''add'', Prefix_String PrefixIPv4, ''dev'', name] st in
      if \<not> ok4 then (Some (SetIPv4 name), st1)
      else let (ok6, st2) = run sys [''ip'', ''-6'', ''addr'', ''add'', Prefix_String PrefixIPv6, ''dev'', name] st1;
               (up, st3) = run sys [''ip'', ''link'', ''set'', name, ''up''] st2
           in if \<not> up then (Some (BringUp name), st3) else (None, st3))"

definition Configure_darwin :: "'w sys \<Rightarrow> string \<Rightarrow> 'w st \<Rightarrow> tun_error option \<times> 'w st" where
  "Configure_darwin sys name st =
     (let gw4 = Addr_String GatewayIPv4;
          (ok4, st1) = run sys [''ifconfig'', name, ''inet'', gw4, gw4, ''up''] st
      in if \<not> ok4 then (Some (SetIPv4 name), st1)
         else let gw6 = Addr_String GatewayIPv6;
                  prefixLen = Itoa (pfx_bits PrefixIPv6);
                  (ok6, st2) = run sys [''ifconfig'', name, ''inet6'', gw6, ''prefixlen'', prefixLen, ''up''] st1
              in (None, st2))"

definition mask4 :: string where
  "mask4 = ''255.255.255.252''"

definition Configure_windows :: "'w sys \<Rightarrow> string \<Rightarrow> 'w st \<Rightarrow> tun_error option \<times> 'w st" where
  "Configure_windows sys name st =
     (let gw4 = Addr_String GatewayIPv4;
          (ok4, st1) = run sys [''netsh'', ''interface'', ''ipv4'', ''set'', ''address'',
             ''name='' @ name, ''source=static'', ''address='' @ gw4, ''mask='' @ mask4] st
      in if \<not> ok4 then (Some (SetIPv4 name), st1)
         else let gw6 = Addr_String GatewayIPv6;
                  prefixLen = Itoa (pfx_bits PrefixIPv6);
                  (ok6, st2) = run sys [''netsh'', ''interface'', ''ipv6'', ''add'', ''address'',
                    ''interface='' @ name, ''address='' @ gw6 @ ''/'' @ prefixLen] st1
              in (None, st2))"

text \<open>The function the build selects; the package has no file for other platforms.\<close>

fun Configure :: "GOOS \<Rightarrow> ('w sys \<Rightarrow> string \<Rightarrow> 'w st \<Rightarrow> tun_error option \<times> 'w st) option" where
  "Configure Linux = Some Configure_linux"
| "Configure Darwin = Some Configure_darwin"
| "Configure Windows = Some Configure_windows"
| "Configure OtherOS = None"

section \<open>The texts of the addresses\<close>

lemma address_texts [simp]:
  "Prefix_String (Prefix (V4 0xC6120001) 30) = ''198.18.0.1/30''"
  "Prefix_String (Prefix (V6 0xfdfedcba987600000000000000000001 []) 126) = ''fdfe:dcba:9876::1/126''"
  "Addr_String (V4 0xC6120001) = ''198.18.0.1''"
  "Addr_String (V6 0xfdfedcba987600000000000000000001 []) = ''fdfe:dcba:9876::1''"
  "appendTo4 0xC6120001 = ''198.18.0.1''" "appendTo6 0xfdfedcba987600000000000000000001 = ''fdfe:dcba:9876::1''"
  "zone_suffix [] = []" "Itoa 126 = ''126''"
  by (simp_all add: go_defs Prefix_IsValid_def Itoa.simps appendHex.simps upt_rec)

text \<open>The commands of each platform, in order: the mandatory IPv4 address first, then the optional IPv6
  address, then on Linux the mandatory link command.\<close>

fun conf_cmds :: "GOOS \<Rightarrow> string \<Rightarrow> cmd list" where
  "conf_cmds Linux name =
     [[''ip'', ''addr'', ''add'', ''198.18.0.1/30'', ''dev'', name],
      [''ip'', ''-6'', ''addr'', ''add'', ''fdfe:dcba:9876::1/126'', ''dev'', name],
      [''ip'', ''link'', ''set'', name, ''up'']]"
| "conf_cmds Darwin name =
     [[''ifconfig'', name, ''inet'', ''198.18.0.1'', ''198.18.0.1'', ''up''],
      [''ifconfig'', name, ''inet6'', ''fdfe:dcba:9876::1'', ''prefixlen'', ''126'', ''up'']]"
| "conf_cmds Windows name =
     [[''netsh'', ''interface'', ''ipv4'', ''set'', ''address'', ''name='' @ name, ''source=static'',
       ''address=198.18.0.1'', ''mask=255.255.255.252''],
      [''netsh'', ''interface'', ''ipv6'', ''add'', ''address'', ''interface='' @ name,
       ''address=fdfe:dcba:9876::1/126'']]"
| "conf_cmds OtherOS name = []"

lemma run_two:
  assumes "(if \<not> fst (run sys c st) then (Some x, snd (run sys c st))
            else (None, snd (run sys d (snd (run sys c st))))) = (e, st')"
    and "cs = [c, d]" "os \<noteq> Linux"
  shows "\<exists>oks. snd st' = snd st @ zip cs oks \<and> length oks = (if hd oks then length cs else 1) \<and>
    (e = None \<longleftrightarrow> hd oks \<and> (if os = Linux then last oks else True))"
proof -
  define a st1 where "a = fst (run sys c st)" and "st1 = snd (run sys c st)"
  define b st2 where "b = fst (run sys d st1)" and "st2 = snd (run sys d st1)"
  have "snd st1 = snd st @ [(c, a)]" "snd st2 = snd st1 @ [(d, b)]"
    using run_log [of sys c st] run_log [of sys d st1] by (simp_all add: a_def st1_def b_def st2_def)
  moreover have "(e, st') = (if \<not> a then (Some x, st1) else (None, st2))"
    using assms(1) by (simp only: a_def st1_def b_def st2_def)
  ultimately show ?thesis using assms(2,3) by (intro exI [of _ "if a then [a, b] else [a]"]) (auto split: if_splits)
qed

lemma run_three:
  assumes "(if \<not> fst (run sys c st) then (Some x, snd (run sys c st))
            else if \<not> fst (run sys u (snd (run sys d (snd (run sys c st)))))
              then (Some y, snd (run sys u (snd (run sys d (snd (run sys c st))))))
              else (None, snd (run sys u (snd (run sys d (snd (run sys c st))))))) = (e, st')"
    and "cs = [c, d, u]" "os = Linux"
  shows "\<exists>oks. snd st' = snd st @ zip cs oks \<and> length oks = (if hd oks then length cs else 1) \<and>
    (e = None \<longleftrightarrow> hd oks \<and> (if os = Linux then last oks else True))"
proof -
  define a st1 where "a = fst (run sys c st)" and "st1 = snd (run sys c st)"
  define b st2 where "b = fst (run sys d st1)" and "st2 = snd (run sys d st1)"
  define g st3 where "g = fst (run sys u st2)" and "st3 = snd (run sys u st2)"
  have "snd st1 = snd st @ [(c, a)]" "snd st2 = snd st1 @ [(d, b)]" "snd st3 = snd st2 @ [(u, g)]"
    using run_log [of sys c st] run_log [of sys d st1] run_log [of sys u st2]
    by (simp_all add: a_def st1_def b_def st2_def g_def st3_def)
  moreover have "(e, st') = (if \<not> a then (Some x, st1) else if \<not> g then (Some y, st3) else (None, st3))"
    using assms(1) by (simp only: a_def st1_def b_def st2_def g_def st3_def)
  ultimately show ?thesis using assms(2,3) by (intro exI [of _ "if a then [a, b, g] else [a]"]) (auto split: if_splits)
qed

section \<open>Properties\<close>

text \<open>C38. What configuring the interface runs and when it succeeds, on every platform: the commands are
  those of the table, with the texts of the gateway addresses; a failure of the IPv4 command ends it with
  an error at once; otherwise all run, and only the link command of Linux can still make it fail, never
  IPv6.\<close>

theorem Configure_spec:
  assumes "Configure os = Some f" "f sys name st = (e, st')"
  shows "\<exists>oks. snd st' = snd st @ zip (conf_cmds os name) oks \<and>
    length oks = (if hd oks then length (conf_cmds os name) else 1) \<and>
    (e = None \<longleftrightarrow> hd oks \<and> (if os = Linux then last oks else True))"
proof (cases os)
  case Linux
  with assms have "Configure_linux sys name st = (e, st')" by simp
  then show ?thesis
    unfolding Configure_linux_def Let_def case_prod_beta fst_conv snd_conv
    by (rule run_three) (simp_all add: Linux mask4_def)
next
  case Darwin
  with assms have "Configure_darwin sys name st = (e, st')" by simp
  then show ?thesis
    unfolding Configure_darwin_def Let_def case_prod_beta fst_conv snd_conv
    by (rule run_two) (simp_all add: Darwin mask4_def)
next
  case Windows
  with assms have "Configure_windows sys name st = (e, st')" by simp
  then show ?thesis
    unfolding Configure_windows_def Let_def case_prod_beta fst_conv snd_conv
    by (rule run_two) (simp_all add: Windows mask4_def)
qed (use assms(1) in simp)

text \<open>The address mask written out for Windows is the one of the gateway's IPv4 prefix.\<close>

theorem windows_mask: "ParseAddr mask4 = Some (V4 (NOT (mask (32 - pfx_bits PrefixIPv4))))"
  by (simp add: mask4_def go_defs mask_eq_exp_minus_1)

section \<open>Witness\<close>

text \<open>A system where every command succeeds but the IPv6 ones.\<close>

definition wit_sys :: "unit sys" where
  "wit_sys = \<lparr>sys_exec = (\<lambda>c w. ((''-6'' \<notin> set c, []), ())), sys_lookPath = (\<lambda>w p. False), sys_lookupHost = (\<lambda>w h. None)\<rparr>"

theorem Configure_spec_witness:
  "\<exists>oks. snd (snd (Configure_linux wit_sys ''nano0'' ((), []))) = zip (conf_cmds Linux ''nano0'') oks \<and> hd oks \<and> last oks"
proof -
  obtain st' where c: "Configure_linux wit_sys ''nano0'' ((), []) = (None, st')"
    by (simp add: Configure_linux_def wit_sys_def run_def)
  have f: "Configure Linux = Some Configure_linux" by simp
  show ?thesis using Configure_spec [OF f c] by (auto simp: c simp del: conf_cmds.simps)
qed

end
