(* ===== verification/Route_Parse.thy ===== *)
theory Route_Parse
  imports Go_Exec Tun_Conf
begin

text \<open>
  Package \<^verbatim>\<open>internal/autoroute\<close>, its pure parts: the texts that are read from the system (gateways, name
  servers, network services), the texts that are sent to PowerShell, and the host of the proxy address.
  The functions that run a command take its output from \<open>sys\<close>.
\<close>

section \<open>Linux: the default route\<close>

definition newline :: char where [go_defs]: "newline = CHR 0x0A"

fun scan_fields :: "string list \<Rightarrow> string \<times> string \<Rightarrow> string \<times> string" where
  "scan_fields (f # g # fs) (gw, dev) =
     scan_fields (g # fs) ((if f = ''via'' then g else gw), (if f = ''dev'' then g else dev))"
| "scan_fields _ gd = gd"

fun scan_route_lines :: "string list \<Rightarrow> (string \<times> string) option" where
  "scan_route_lines [] = None"
| "scan_route_lines (line # lines) =
     (let (gw, dev) = scan_fields (Fields line) ([], []) in
      if gw \<noteq> [] \<and> dev \<noteq> [] then Some (gw, dev) else scan_route_lines lines)"

definition defaultGateway4 :: "'w sys \<Rightarrow> 'w st \<Rightarrow> (string \<times> string) option \<times> 'w st" where
  "defaultGateway4 sys st =
     (case exec_Output sys [''ip'', ''route'', ''show'', ''default''] st of
        (None, st') \<Rightarrow> (None, st')
      | (Some out, st') \<Rightarrow> (scan_route_lines (Split out newline), st'))"

definition defaultGateway6 :: "'w sys \<Rightarrow> 'w st \<Rightarrow> (string \<times> string) option \<times> 'w st" where
  "defaultGateway6 sys st =
     (case exec_Output sys [''ip'', ''-6'', ''route'', ''show'', ''default''] st of
        (None, st') \<Rightarrow> (None, st')
      | (Some out, st') \<Rightarrow> (scan_route_lines (Split out newline), st'))"

section \<open>The proxy host\<close>

text \<open>The part of the proxy address that is resolved: without the scheme, the user and the port.\<close>

definition strip_scheme :: "string \<Rightarrow> string" where
  "strip_scheme s = (case Index s ''://'' of Some i \<Rightarrow> drop (i + 3) s | None \<Rightarrow> s)"

definition strip_user :: "string \<Rightarrow> string" where
  "strip_user s = (case LastIndexByte s (CHR 0x40) of Some i \<Rightarrow> drop (Suc i) s | None \<Rightarrow> s)"

definition proxy_host :: "string \<Rightarrow> string" where
  "proxy_host proxyAddr =
     (let s = strip_user (strip_scheme proxyAddr) in
      case SplitHostPort s of Some (host, port) \<Rightarrow> host | None \<Rightarrow> s)"

definition resolveProxyHost :: "'w sys \<Rightarrow> 'w st \<Rightarrow> string \<Rightarrow> string list" where
  "resolveProxyHost sys st proxyAddr =
     (if proxyAddr = [] then []
      else case sys_lookupHost sys (fst st) (proxy_host proxyAddr) of
             None \<Rightarrow> []
           | Some addrs \<Rightarrow> List.map_filter ParseIP_To4_String addrs)"

section \<open>Darwin\<close>

text \<open>The lines of a \<open>bufio.Scanner\<close>, for lines below its limit of 64 KiB.\<close>

definition drop_cr :: "string \<Rightarrow> string" where
  [go_defs]: "drop_cr s = (if s \<noteq> [] \<and> last s = CHR 0x0D then butlast s else s)"

definition Scanner_lines :: "string \<Rightarrow> string list" where
  [go_defs]: "Scanner_lines s =
     (let ls = Split s newline in map drop_cr (if last ls = [] then butlast ls else ls))"

fun find_gateway :: "string list \<Rightarrow> string option" where
  "find_gateway [] = None"
| "find_gateway (l # ls) =
     (let line = TrimSpace l in
      if HasPrefix line ''gateway:'' then
        (let gw = TrimSpace (TrimPrefix line ''gateway:'') in if gw \<noteq> [] then Some gw else find_gateway ls)
      else find_gateway ls)"

definition defaultDarwinGateway4 :: "'w sys \<Rightarrow> 'w st \<Rightarrow> string option \<times> 'w st" where
  "defaultDarwinGateway4 sys st =
     (case exec_Output sys [''route'', ''get'', ''8.8.8.8''] st of
        (None, st') \<Rightarrow> (None, st')
      | (Some out, st') \<Rightarrow> (find_gateway (Scanner_lines out), st'))"

fun find_interface :: "string list \<Rightarrow> string" where
  "find_interface [] = []"
| "find_interface (l # ls) =
     (let line = TrimSpace l in
      if HasPrefix line ''interface:'' then TrimSpace (TrimPrefix line ''interface:'') else find_interface ls)"

fun find_service :: "string \<Rightarrow> string \<Rightarrow> string list \<Rightarrow> string option" where
  "find_service iface curService [] = None"
| "find_service iface curService (l # ls) =
     (let line = TrimSpace l in
      if HasPrefix line ''Hardware Port:'' then
        find_service iface (TrimSpace (TrimPrefix line ''Hardware Port:'')) ls
      else if HasPrefix line ''Device:'' then
        (let curDevice = TrimSpace (TrimPrefix line ''Device:'') in
         if curDevice = iface \<and> curService \<noteq> [] then Some curService else find_service iface curService ls)
      else find_service iface curService ls)"

definition serviceForInterface :: "'w sys \<Rightarrow> string \<Rightarrow> 'w st \<Rightarrow> string option \<times> 'w st" where
  "serviceForInterface sys iface st =
     (case exec_Output sys [''networksetup'', ''-listallhardwareports''] st of
        (None, st') \<Rightarrow> (None, st')
      | (Some out, st') \<Rightarrow> (find_service iface [] (Scanner_lines out), st'))"

definition quote_char :: char where [go_defs]: "quote_char = CHR 0x27"

definition keep_server :: "string \<Rightarrow> string option" where
  "keep_server l =
     (let line = TrimSpace l in
      if line = [] \<or> Contains line (''aren'' @ [quote_char] @ ''t any'') then None else Some line)"

definition darwin_currentDNS :: "'w sys \<Rightarrow> string \<Rightarrow> 'w st \<Rightarrow> string list \<times> 'w st" where
  "darwin_currentDNS sys svc st =
     (case exec_Output sys [''networksetup'', ''-getdnsservers'', svc] st of
        (None, st') \<Rightarrow> ([], st')
      | (Some out, st') \<Rightarrow> (List.map_filter keep_server (Scanner_lines out), st'))"

definition detectNetworkService :: "'w sys \<Rightarrow> 'w st \<Rightarrow> (string \<times> string list) option \<times> 'w st" where
  "detectNetworkService sys st =
     (case exec_Output sys [''route'', ''get'', ''8.8.8.8''] st of
        (None, st1) \<Rightarrow> (None, st1)
      | (Some out, st1) \<Rightarrow>
          let iface = find_interface (Scanner_lines out) in
          if iface = [] then (None, st1)
          else (case serviceForInterface sys iface st1 of
                  (None, st2) \<Rightarrow> (None, st2)
                | (Some svc, st2) \<Rightarrow> (let (old, st3) = darwin_currentDNS sys svc st2 in (Some (svc, old), st3))))"

section \<open>Windows\<close>

fun find_dns :: "string list \<Rightarrow> string" where
  "find_dns [] = []"
| "find_dns (l # ls) =
     (let line = TrimSpace l in
      (case IndexByte line (CHR '':'') of
         None \<Rightarrow> find_dns ls
       | Some i \<Rightarrow>
           let addr = TrimSpace (drop (Suc i) line) in
           if addr \<noteq> [] \<and> addr \<noteq> ''None'' \<and> \<not> Contains addr '' '' then addr else find_dns ls))"

definition windows_currentDNS :: "'w sys \<Rightarrow> string \<Rightarrow> 'w st \<Rightarrow> string \<times> 'w st" where
  "windows_currentDNS sys ifaceName st =
     (case exec_Output sys [''netsh'', ''interface'', ''ipv4'', ''show'', ''dnsservers'', ''name='' @ ifaceName] st of
        (None, st') \<Rightarrow> ([], st')
      | (Some out, st') \<Rightarrow> (find_dns (Split out newline), st'))"

fun scan_route_print :: "string list \<Rightarrow> string" where
  "scan_route_print [] = []"
| "scan_route_print (line # lines) =
     (let fields = Fields line in
      if length fields \<ge> 3 \<and> fields ! 0 = ''0.0.0.0'' \<and> fields ! 1 = ''0.0.0.0'' then fields ! 2
      else scan_route_print lines)"

definition parseDefaultGatewayFromRoutePrint :: "string \<Rightarrow> string" where
  "parseDefaultGatewayFromRoutePrint out = scan_route_print (Split out newline)"

definition withPowerShellUnicode :: "string \<Rightarrow> string" where
  "withPowerShellUnicode script =
     ''$OutputEncoding = [Console]::OutputEncoding = [System.Text.Encoding]::Unicode; '' @ TrimSpace script"

text \<open>\<open>strings.ReplaceAll\<close> of a one-byte text.\<close>

definition ReplaceAll_char :: "string \<Rightarrow> char \<Rightarrow> string \<Rightarrow> string" where
  "ReplaceAll_char s c new = concat (map (\<lambda>x. if x = c then new else [x]) s)"

definition psQuote :: "string \<Rightarrow> string" where
  "psQuote s = [quote_char] @ ReplaceAll_char s quote_char [quote_char, quote_char] @ [quote_char]"

definition buildAddIPv4HostRouteScript :: "string \<Rightarrow> string \<Rightarrow> string" where
  "buildAddIPv4HostRouteScript ip nextHop =
     ''$ifIndex = (Get-NetRoute -AddressFamily IPv4 -DestinationPrefix '' @ [quote_char] @ ''0.0.0.0/0'' @ [quote_char] @
     '' -NextHop '' @ psQuote nextHop @
     '' -ErrorAction SilentlyContinue | Sort-Object RouteMetric | Select-Object -First 1).InterfaceIndex; '' @
     ''if (-not $ifIndex) { throw '' @ [quote_char] @ ''failed to resolve interface index for default route'' @ [quote_char] @ '' }; '' @
     ''New-NetRoute -AddressFamily IPv4 '' @
     ''-DestinationPrefix '' @ psQuote (ip @ ''/32'') @ '' '' @
     ''-InterfaceIndex $ifIndex '' @
     ''-NextHop '' @ psQuote nextHop @ '' '' @
     ''-RouteMetric 1 -PolicyStore ActiveStore -ErrorAction Stop''"

definition buildAddLocalhostRouteScript :: "string \<Rightarrow> string \<Rightarrow> string \<Rightarrow> string" where
  "buildAddLocalhostRouteScript loopbackAddr loopbackPrefix nextHopOnLink =
     ''$ifIndex = (Get-NetIPAddress -AddressFamily IPv4 -IPAddress '' @ psQuote loopbackAddr @ '' -ErrorAction Stop | '' @
     ''Select-Object -First 1).InterfaceIndex; '' @
     ''$existing = Get-NetRoute -AddressFamily IPv4 -DestinationPrefix '' @ psQuote loopbackPrefix @ '' '' @
     ''-InterfaceIndex $ifIndex -NextHop '' @ psQuote nextHopOnLink @ '' -ErrorAction SilentlyContinue | Select-Object -First 1; '' @
     ''if (-not $existing) { '' @
     ''New-NetRoute -AddressFamily IPv4 -DestinationPrefix '' @ psQuote loopbackPrefix @ '' '' @
     ''-InterfaceIndex $ifIndex -NextHop '' @ psQuote nextHopOnLink @ '' -RouteMetric 1 -PolicyStore ActiveStore -ErrorAction Stop }''"

definition removeIPv4HostRouteScript :: "string \<Rightarrow> string \<Rightarrow> string" where
  "removeIPv4HostRouteScript ip nextHop =
     ''Remove-NetRoute -AddressFamily IPv4 '' @
     ''-DestinationPrefix '' @ psQuote (ip @ ''/32'') @ '' '' @
     ''-NextHop '' @ psQuote nextHop @ '' '' @
     ''-PolicyStore ActiveStore -Confirm:$false -ErrorAction Stop''"

definition removeLocalhostRouteScript :: string where
  "removeLocalhostRouteScript =
     ''Remove-NetRoute -AddressFamily IPv4 -DestinationPrefix '' @ psQuote ''127.0.0.0/8'' @ '' '' @
     ''-NextHop '' @ psQuote ''0.0.0.0'' @ '' '' @
     ''-PolicyStore ActiveStore -Confirm:$false -ErrorAction Stop''"

definition powershell :: "string \<Rightarrow> cmd" where
  "powershell script = [''powershell'', ''-NoProfile'', ''-NonInteractive'', ''-Command'', withPowerShellUnicode script]"

definition gatewayScript :: string where
  "gatewayScript =
     ''(Get-NetRoute -DestinationPrefix '' @ [quote_char] @ ''0.0.0.0/0'' @ [quote_char] @ '' -ErrorAction SilentlyContinue | '' @
     ''Sort-Object RouteMetric | Select-Object -First 1).NextHop''"

definition defaultWindowsGateway4 :: "'w sys \<Rightarrow> 'w st \<Rightarrow> string option \<times> 'w st" where
  "defaultWindowsGateway4 sys st =
     (let (o1, st1) = exec_Output sys (powershell gatewayScript) st;
          gw = (case o1 of None \<Rightarrow> [] | Some out \<Rightarrow> TrimSpace out)
      in if gw \<noteq> [] \<and> gw \<noteq> ''::'' then (Some gw, st1)
         else (case exec_Output sys [''route'', ''print'', ''0.0.0.0'', ''mask'', ''0.0.0.0''] st1 of
                 (None, st2) \<Rightarrow> (None, st2)
               | (Some out, st2) \<Rightarrow>
                   let gw' = parseDefaultGatewayFromRoutePrint out in
                   (if gw' \<noteq> [] then Some gw' else None, st2)))"

section \<open>Quoting\<close>

text \<open>How PowerShell reads a literal in single quotes: two quotes stand for one, a single one ends it. The
  result is the text and what follows the literal.\<close>

fun ps_body :: "string \<Rightarrow> (string \<times> string) option" where
  "ps_body [] = None"
| "ps_body (c # s) =
     (if c = quote_char then
        (case s of
           d # t \<Rightarrow> if d = quote_char then map_option (\<lambda>(a, r). (quote_char # a, r)) (ps_body t) else Some ([], s)
         | [] \<Rightarrow> Some ([], []))
      else map_option (\<lambda>(a, r). (c # a, r)) (ps_body s))"

definition ps_literal :: "string \<Rightarrow> (string \<times> string) option" where
  "ps_literal s = (case s of [] \<Rightarrow> None | c # t \<Rightarrow> if c = quote_char then ps_body t else None)"

lemma ps_body_quoted:
  assumes "rest = [] \<or> hd rest \<noteq> quote_char"
  shows "ps_body (ReplaceAll_char s quote_char [quote_char, quote_char] @ quote_char # rest) = Some (s, rest)"
  using assms by (induction s) (auto simp: ReplaceAll_char_def split: list.split)

section \<open>Fields of a route\<close>

lemma scan_fields_via:
  assumes "scan_fields fs (g0, d0) = (gw, dev)"
  shows "(gw = g0 \<or> (\<exists>i. Suc i < length fs \<and> fs ! i = ''via'' \<and> fs ! Suc i = gw)) \<and>
    (dev = d0 \<or> (\<exists>i. Suc i < length fs \<and> fs ! i = ''dev'' \<and> fs ! Suc i = dev))"
  using assms
proof (induction fs "(g0, d0)" arbitrary: g0 d0 rule: scan_fields.induct)
  case (1 f g fs gw0 dev0)
  then have IH: "(gw = (if f = ''via'' then g else gw0) \<or> (\<exists>i. Suc i < length (g # fs) \<and> (g # fs) ! i = ''via'' \<and> (g # fs) ! Suc i = gw)) \<and>
    (dev = (if f = ''dev'' then g else dev0) \<or> (\<exists>i. Suc i < length (g # fs) \<and> (g # fs) ! i = ''dev'' \<and> (g # fs) ! Suc i = dev))"
    by simp
  have shift: "(\<exists>i. Suc i < length (g # fs) \<and> (g # fs) ! i = k \<and> (g # fs) ! Suc i = x) \<Longrightarrow>
      (\<exists>i. Suc i < length (f # g # fs) \<and> (f # g # fs) ! i = k \<and> (f # g # fs) ! Suc i = x)" for k x
    by (metis (no_types, lifting) Suc_less_eq length_Cons nth_Cons_Suc)
  have here: "\<exists>i. Suc i < length (f # g # fs) \<and> (f # g # fs) ! i = f \<and> (f # g # fs) ! Suc i = g"
    by (rule exI [of _ 0]) simp
  show ?case using IH shift [of "''via''" gw] shift [of "''dev''" dev] here by (auto split: if_splits)
qed auto

section \<open>The proxy host of an address\<close>

text \<open>The host that is resolved for the bypass routes: of an address with scheme, user and port it is the
  host, whatever the user part holds, an at sign included.\<close>

lemma SplitHostPort_plain:
  assumes "set host \<inter> {CHR '':'', CHR ''['', CHR '']'', CHR 0x40} = {}" "set port \<inter> {CHR '':'', CHR ''['', CHR '']'', CHR 0x40} = {}"
  shows "SplitHostPort (host @ '':'' @ port) = Some (host, port)"
proof -
  have "hd (host @ CHR '':'' # port) \<noteq> CHR ''[''" using assms(1) by (cases host) auto
  then show ?thesis using assms by (auto simp: SplitHostPort_def LastIndexByte_append)
qed

text \<open>An address without a scheme.\<close>

lemma proxy_host_bare:
  assumes "\<not> Contains (host @ '':'' @ port) ''://''"
    and "set host \<inter> {CHR '':'', CHR ''['', CHR '']'', CHR 0x40} = {}" "set port \<inter> {CHR '':'', CHR ''['', CHR '']'', CHR 0x40} = {}"
  shows "proxy_host (host @ '':'' @ port) = host"
proof -
  have "LastIndexByte (host @ '':'' @ port) (CHR 0x40) = None"
    using assms(2,3) by (auto simp: LastIndexByte_none)
  then show ?thesis
    using assms(1) SplitHostPort_plain [OF assms(2,3)] by (simp add: proxy_host_def strip_scheme_def strip_user_def Contains_def)
qed

lemma proxy_host_of_url:
  assumes "CHR '':'' \<notin> set scheme"
    and "set host \<inter> {CHR '':'', CHR ''['', CHR '']'', CHR 0x40} = {}"
    and "set port \<inter> {CHR '':'', CHR ''['', CHR '']'', CHR 0x40} = {}"
  shows "proxy_host (scheme @ ''://'' @ user @ [CHR 0x40] @ host @ '':'' @ port) = host \<and>
    proxy_host (scheme @ ''://'' @ host @ '':'' @ port) = host"
proof -
  have index: "Index (scheme @ ''://'' @ r) ''://'' = Some (length scheme)" for r
    using assms(1) by (induction scheme) (auto simp: HasPrefix_def)
  note split = SplitHostPort_plain [OF assms(2,3)]
  have "LastIndexByte (user @ CHR 0x40 # host @ '':'' @ port) (CHR 0x40) = Some (length user)"
    using assms(2,3) by (intro LastIndexByte_append) auto
  moreover have "LastIndexByte (host @ '':'' @ port) (CHR 0x40) = None"
    using assms(2,3) by (auto simp: LastIndexByte_none)
  ultimately show ?thesis
    using split by (simp add: proxy_host_def strip_scheme_def strip_user_def index [simplified] Let_def)
qed

section \<open>Properties\<close>

text \<open>Quoting for PowerShell is exact: a quoted text, read as a literal in single quotes, gives back the
  text and leaves what follows, for every text, quotes included, so that no part of it is read as code.\<close>

theorem psQuote_roundtrip:
  assumes "rest = [] \<or> hd rest \<noteq> quote_char"
  shows "ps_literal (psQuote s @ rest) = Some (s, rest)"
  using ps_body_quoted [OF assms] by (simp add: ps_literal_def psQuote_def)

text \<open>The gateway and device that are read from the output of \<^verbatim>\<open>ip route\<close> are words of one line of it, not
  empty, right after the words \<^verbatim>\<open>via\<close> and \<^verbatim>\<open>dev\<close>.\<close>

theorem default_route_fields:
  assumes "scan_route_lines ls = Some (gw, dev)"
  shows "\<exists>line \<in> set ls. gw \<noteq> [] \<and> dev \<noteq> [] \<and>
    (\<exists>i. Suc i < length (Fields line) \<and> Fields line ! i = ''via'' \<and> Fields line ! Suc i = gw) \<and>
    (\<exists>i. Suc i < length (Fields line) \<and> Fields line ! i = ''dev'' \<and> Fields line ! Suc i = dev)"
  using assms
proof (induction ls)
  case (Cons l ls)
  obtain g d where s: "scan_fields (Fields l) ([], []) = (g, d)" by (cases "scan_fields (Fields l) ([], [])")
  show ?case
  proof (cases "g \<noteq> [] \<and> d \<noteq> []")
    case True
    then have "gw = g" "dev = d" using Cons.prems s by auto
    with True scan_fields_via [OF s] show ?thesis by auto
  next
    case False
    then have "scan_route_lines ls = Some (gw, dev)" using Cons.prems s by auto
    with Cons.IH show ?thesis by auto
  qed
qed simp

section \<open>Witnesses\<close>

theorem psQuote_roundtrip_witness: "ps_literal (psQuote [CHR ''a'', quote_char] @ '' b'') = Some ([CHR ''a'', quote_char], '' b'')"
  by (rule psQuote_roundtrip) (simp add: quote_char_def)

theorem default_route_fields_witness:
  "\<exists>line \<in> set [''default via 10.0.0.1 dev eth0'']. (''10.0.0.1'' :: string) \<noteq> [] \<and> (''eth0'' :: string) \<noteq> [] \<and>
    (\<exists>i. Suc i < length (Fields line) \<and> Fields line ! i = ''via'' \<and> Fields line ! Suc i = ''10.0.0.1'') \<and>
    (\<exists>i. Suc i < length (Fields line) \<and> Fields line ! i = ''dev'' \<and> Fields line ! Suc i = ''eth0'')"
  by (rule default_route_fields) (simp add: Fields.simps is_space_def)

end
