(* ===== verification/Auto_Route.thy ===== *)
theory Auto_Route
  imports Route_Parse
begin

text \<open>
  Package \<^verbatim>\<open>internal/autoroute\<close>, the function \<open>Apply\<close> of each platform. The closures that the source
  collects in \<open>cleanups\<close> each run a fixed list of commands and ignore their results, so a cleanup is that
  list, and \<open>revert\<close> runs the lists from the last to the first. \<open>Apply\<close> returns an error, with the cleanup
  function that does nothing, or the commands its cleanup function runs.
\<close>

section \<open>Shared\<close>

datatype route_error = NoGateway | AddDefaultIPv4 | AddDefaultIPv4High | NotSupported

type_synonym cleanups = "cmd list list"

definition revert_cmds :: "cleanups \<Rightarrow> cmd list" where
  "revert_cmds cleanups = concat (rev cleanups)"

text \<open>The loop over the proxy's addresses: a route that cannot be added is skipped, an added one gets a
  cleanup.\<close>

fun add_bypass ::
  "'w sys \<Rightarrow> (string \<Rightarrow> cmd) \<Rightarrow> (string \<Rightarrow> cmd) \<Rightarrow> string list \<Rightarrow> cleanups \<times> 'w st \<Rightarrow> cleanups \<times> 'w st" where
  "add_bypass sys add del [] (cl, st) = (cl, st)"
| "add_bypass sys add del (ip # ips) (cl, st) =
     (let (ok, st') = run sys (add ip) st in
      if \<not> ok then add_bypass sys add del ips (cl, st')
      else add_bypass sys add del ips (cl @ [[del ip]], st'))"

text \<open>A best-effort step: run a command, and register a cleanup when it succeeds.\<close>

definition try_add :: "'w sys \<Rightarrow> cmd \<Rightarrow> cmd \<Rightarrow> cleanups \<times> 'w st \<Rightarrow> cleanups \<times> 'w st" where
  "try_add sys add del s = (let (ok, st') = run sys add (snd s) in (if \<not> ok then fst s else fst s @ [[del]], st'))"

section \<open>Linux\<close>

definition nanotunMarkHex :: string where "nanotunMarkHex = ''0x6e74''"

definition nftTable4 :: string where "nftTable4 = ''nanotun_dns''"

definition nftTable6 :: string where "nftTable6 = ''nanotun_dns6''"

definition nft_chain :: string where
  "nft_chain = ''{ type nat hook output priority -100 ; policy accept ; }''"

definition nft_rule :: "string \<Rightarrow> string \<Rightarrow> string \<Rightarrow> string \<Rightarrow> cmd" where
  "nft_rule fam table proto gw =
     [''nft'', ''add'', ''rule'', fam, table, ''output'', proto, ''dport'', ''53'', fam, ''daddr'', ''!='', gw,
      ''meta'', ''mark'', ''!='', nanotunMarkHex, ''dnat'', ''to'', gw]"

definition nft_cmds :: "string \<Rightarrow> string \<Rightarrow> cmd list" where
  "nft_cmds gw4 gw6 =
     [[''nft'', ''add'', ''table'', ''ip'', nftTable4],
      [''nft'', ''add'', ''chain'', ''ip'', nftTable4, ''output'', nft_chain],
      nft_rule ''ip'' nftTable4 ''udp'' gw4,
      nft_rule ''ip'' nftTable4 ''tcp'' gw4,
      [''nft'', ''add'', ''table'', ''ip6'', nftTable6],
      [''nft'', ''add'', ''chain'', ''ip6'', nftTable6, ''output'', nft_chain],
      nft_rule ''ip6'' nftTable6 ''udp'' gw6,
      nft_rule ''ip6'' nftTable6 ''tcp'' gw6]"

definition cleanupNft :: "cmd list" where
  "cleanupNft = [[''nft'', ''delete'', ''table'', ''ip'', nftTable4], [''nft'', ''delete'', ''table'', ''ip6'', nftTable6]]"

definition applyNft :: "'w sys \<Rightarrow> string \<Rightarrow> string \<Rightarrow> 'w st \<Rightarrow> bool \<times> 'w st" where
  "applyNft sys gw4 gw6 st =
     (let (ok, st') = run_until_error sys (nft_cmds gw4 gw6) st in
      if \<not> ok then (False, run_each sys cleanupNft st') else (True, st'))"

definition iptables_rule :: "string \<Rightarrow> string \<Rightarrow> string \<Rightarrow> string \<Rightarrow> cmd" where
  "iptables_rule prog act proto gw =
     [prog, ''-t'', ''nat'', act, ''OUTPUT'', ''-p'', proto, ''--dport'', ''53'', ''!'', ''-d'', gw,
      ''-m'', ''mark'', ''!'', ''--mark'', nanotunMarkHex, ''-j'', ''DNAT'', ''--to'', gw]"

definition cleanupIPTables :: "string \<Rightarrow> string \<Rightarrow> cmd list" where
  "cleanupIPTables gw4 gw6 =
     [iptables_rule ''iptables'' ''-D'' ''udp'' gw4, iptables_rule ''iptables'' ''-D'' ''tcp'' gw4,
      iptables_rule ''ip6tables'' ''-D'' ''udp'' gw6, iptables_rule ''ip6tables'' ''-D'' ''tcp'' gw6]"

definition applyIPTables :: "'w sys \<Rightarrow> string \<Rightarrow> string \<Rightarrow> 'w st \<Rightarrow> bool \<times> 'w st" where
  "applyIPTables sys gw4 gw6 st =
     (let (ok, st1) = run_until_error sys
            [iptables_rule ''iptables'' ''-I'' ''udp'' gw4, iptables_rule ''iptables'' ''-I'' ''tcp'' gw4] st
      in if \<not> ok then (False, run_each sys (cleanupIPTables gw4 gw6) st1)
         else (True, run_each sys
            [iptables_rule ''ip6tables'' ''-I'' ''udp'' gw6, iptables_rule ''ip6tables'' ''-I'' ''tcp'' gw6] st1))"

definition toolExists :: "'w sys \<Rightarrow> 'w st \<Rightarrow> string \<Rightarrow> bool" where
  "toolExists sys st name = sys_lookPath sys (fst st) name"

definition redirect_dns :: "'w sys \<Rightarrow> string \<Rightarrow> string \<Rightarrow> cleanups \<times> 'w st \<Rightarrow> cleanups \<times> 'w st" where
  "redirect_dns sys gw4 gw6 s =
     (if toolExists sys (snd s) ''nft'' then
        (let (ok, st') = applyNft sys gw4 gw6 (snd s) in (if \<not> ok then fst s else fst s @ [cleanupNft], st'))
      else if toolExists sys (snd s) ''iptables'' then
        (let (ok, st') = applyIPTables sys gw4 gw6 (snd s) in
         (if \<not> ok then fst s else fst s @ [cleanupIPTables gw4 gw6], st'))
      else s)"

definition bypass6_cmds :: "string \<Rightarrow> string \<Rightarrow> string list \<Rightarrow> cmd list" where
  "bypass6_cmds gw dev ips =
     map (\<lambda>ip. [''ip'', ''-6'', ''route'', ''add'', ip @ ''/128'', ''via'', gw, ''dev'', dev]) ips"

text \<open>The second half of \<open>Apply\<close>, once the IPv4 default route is in place: the IPv6 routes and DNS.\<close>

definition linux_ipv6_dns ::
  "'w sys \<Rightarrow> string \<Rightarrow> string \<Rightarrow> string \<Rightarrow> string list \<Rightarrow> cleanups \<times> 'w st \<Rightarrow> cleanups \<times> 'w st" where
  "linux_ipv6_dns sys tunName gw4 gw6 proxyIPs s =
     (let (o6, st4) = defaultGateway6 sys (snd s);
          st5 = (case o6 of
                   Some (origGW6, origDev6) \<Rightarrow>
                     if origGW6 \<noteq> [] then run_each sys (bypass6_cmds origGW6 origDev6 proxyIPs) st4 else st4
                 | None \<Rightarrow> st4);
          s6 = try_add sys
            [''ip'', ''-6'', ''route'', ''add'', ''default'', ''via'', gw6, ''dev'', tunName]
            [''ip'', ''-6'', ''route'', ''del'', ''default'', ''via'', gw6, ''dev'', tunName] (fst s, st5)
      in redirect_dns sys gw4 gw6 s6)"

definition Apply_linux :: "'w sys \<Rightarrow> string \<Rightarrow> string \<Rightarrow> 'w st \<Rightarrow> (route_error + cmd list) \<times> 'w st" where
  "Apply_linux sys tunName proxyAddr st =
     (let gw4 = Addr_String GatewayIPv4; gw6 = Addr_String GatewayIPv6 in
      case defaultGateway4 sys st of
        (None, st1) \<Rightarrow> (Inl NoGateway, st1)
      | (Some (origGW4, origDev4), st1) \<Rightarrow>
          let proxyIPs = resolveProxyHost sys st1 proxyAddr;
              (cl1, st2) = add_bypass sys
                (\<lambda>ip. [''ip'', ''route'', ''add'', ip @ ''/32'', ''via'', origGW4, ''dev'', origDev4])
                (\<lambda>ip. [''ip'', ''route'', ''del'', ip @ ''/32'', ''via'', origGW4, ''dev'', origDev4])
                proxyIPs ([], st1);
              (ok, st3) = run sys [''ip'', ''route'', ''add'', ''default'', ''via'', gw4, ''dev'', tunName] st2
          in if \<not> ok then (Inl AddDefaultIPv4, run_each sys (revert_cmds cl1) st3)
             else
               let cl2 = cl1 @ [[[''ip'', ''route'', ''del'', ''default'', ''via'', gw4, ''dev'', tunName]]];
                   (cl7, st7) = linux_ipv6_dns sys tunName gw4 gw6 proxyIPs (cl2, st3)
               in (Inr (revert_cmds cl7), st7))"

section \<open>Darwin\<close>

text \<open>The last part of \<open>Apply\<close>: DNS via \<^verbatim>\<open>networksetup\<close>.\<close>

definition darwin_set_dns :: "'w sys \<Rightarrow> string \<Rightarrow> cleanups \<times> 'w st \<Rightarrow> cleanups \<times> 'w st" where
  "darwin_set_dns sys gw4 s =
     (let (det, st') = detectNetworkService sys (snd s) in
      case det of
        None \<Rightarrow> (fst s, st')
      | Some (svc, oldDNS) \<Rightarrow>
          try_add sys [''networksetup'', ''-setdnsservers'', svc, gw4]
            ([''networksetup'', ''-setdnsservers'', svc] @ (if length oldDNS = 0 then [''empty''] else oldDNS)) (fst s, st'))"

definition Apply_darwin :: "'w sys \<Rightarrow> string \<Rightarrow> string \<Rightarrow> 'w st \<Rightarrow> (route_error + cmd list) \<times> 'w st" where
  "Apply_darwin sys tunName proxyAddr st =
     (let gw4 = Addr_String GatewayIPv4; gw6 = Addr_String GatewayIPv6 in
      case defaultDarwinGateway4 sys st of
        (None, st1) \<Rightarrow> (Inl NoGateway, st1)
      | (Some origGW4, st1) \<Rightarrow>
          let proxyIPs = resolveProxyHost sys st1 proxyAddr;
              (cl1, st2) = add_bypass sys
                (\<lambda>ip. [''route'', ''add'', ''-host'', ip, origGW4])
                (\<lambda>ip. [''route'', ''delete'', ''-host'', ip, origGW4]) proxyIPs ([], st1);
              (ok1, st3) = run sys [''route'', ''add'', ''-net'', ''0.0.0.0/1'', gw4] st2
          in if \<not> ok1 then (Inl AddDefaultIPv4, st3)
             else
               let cl2 = cl1 @ [[[''route'', ''delete'', ''-net'', ''0.0.0.0/1'', gw4]]];
                   (ok2, st4) = run sys [''route'', ''add'', ''-net'', ''128.0.0.0/1'', gw4] st3
               in if \<not> ok2 then (Inl AddDefaultIPv4High, run_each sys (revert_cmds cl2) st4)
                  else
                    let cl3 = cl2 @ [[[''route'', ''delete'', ''-net'', ''128.0.0.0/1'', gw4]]];
                        s5 = try_add sys [''route'', ''add'', ''-inet6'', ''::/1'', gw6]
                               [''route'', ''delete'', ''-inet6'', ''::/1'', gw6] (cl3, st4);
                        s6 = try_add sys [''route'', ''add'', ''-inet6'', ''8000::/1'', gw6]
                               [''route'', ''delete'', ''-inet6'', ''8000::/1'', gw6] s5;
                        s8 = darwin_set_dns sys gw4 s6
                    in (Inr (revert_cmds (fst s8)), snd s8))"

section \<open>Windows\<close>

definition netsh_add :: "string \<Rightarrow> string \<Rightarrow> string \<Rightarrow> string \<Rightarrow> cmd" where
  "netsh_add fam dst tunName gw =
     [''netsh'', ''interface'', fam, ''add'', ''route'', dst, tunName, gw, ''metric=1'', ''store=active'']"

definition netsh_del :: "string \<Rightarrow> string \<Rightarrow> string \<Rightarrow> string \<Rightarrow> cmd" where
  "netsh_del fam dst tunName gw = [''netsh'', ''interface'', fam, ''delete'', ''route'', dst, tunName, gw]"

definition win_revert_cmds :: "cleanups \<Rightarrow> cmd list" where
  "win_revert_cmds cleanups = concat (rev cleanups) @ [[''ipconfig'', ''/flushdns'']]"

text \<open>The last part of \<open>Apply\<close>: DNS of the TUN interface.\<close>

definition windows_set_dns :: "'w sys \<Rightarrow> string \<Rightarrow> string \<Rightarrow> cleanups \<times> 'w st \<Rightarrow> cleanups \<times> 'w st" where
  "windows_set_dns sys tunName gw4 s =
     (let (oldDNS, st') = windows_currentDNS sys tunName (snd s) in
      try_add sys
        [''netsh'', ''interface'', ''ipv4'', ''set'', ''dnsservers'', ''name='' @ tunName, ''source=static'', ''address='' @ gw4, ''validate=no'']
        (if oldDNS = [] then
           [''netsh'', ''interface'', ''ipv4'', ''set'', ''dnsservers'', ''name='' @ tunName, ''source=dhcp'']
         else
           [''netsh'', ''interface'', ''ipv4'', ''set'', ''dnsservers'', ''name='' @ tunName, ''source=static'', ''address='' @ oldDNS, ''validate=no''])
        (fst s, st'))"

definition Apply_windows :: "'w sys \<Rightarrow> string \<Rightarrow> string \<Rightarrow> 'w st \<Rightarrow> (route_error + cmd list) \<times> 'w st" where
  "Apply_windows sys tunName proxyAddr st =
     (let gw4 = Addr_String GatewayIPv4; gw6 = Addr_String GatewayIPv6 in
      case defaultWindowsGateway4 sys st of
        (None, st1) \<Rightarrow> (Inl NoGateway, st1)
      | (Some origGW4, st1) \<Rightarrow>
          let proxyIPs = resolveProxyHost sys st1 proxyAddr;
              (cl1, st2) = add_bypass sys
                (\<lambda>ip. powershell (buildAddIPv4HostRouteScript ip origGW4))
                (\<lambda>ip. powershell (removeIPv4HostRouteScript ip origGW4)) proxyIPs ([], st1);
              s3 = try_add sys
                (powershell (buildAddLocalhostRouteScript ''127.0.0.1'' ''127.0.0.0/8'' ''0.0.0.0''))
                (powershell removeLocalhostRouteScript) (cl1, st2);
              (ok1, st4) = run sys (netsh_add ''ipv4'' ''0.0.0.0/1'' tunName gw4) (snd s3)
          in if \<not> ok1 then (Inl AddDefaultIPv4, st4)
             else
               let cl4 = fst s3 @ [[netsh_del ''ipv4'' ''0.0.0.0/1'' tunName gw4]];
                   (ok2, st5) = run sys (netsh_add ''ipv4'' ''128.0.0.0/1'' tunName gw4) st4
               in if \<not> ok2 then (Inl AddDefaultIPv4High, run_each sys (win_revert_cmds cl4) st5)
                  else
                    let cl5 = cl4 @ [[netsh_del ''ipv4'' ''128.0.0.0/1'' tunName gw4]];
                        s6 = try_add sys (netsh_add ''ipv6'' ''::/1'' tunName gw6) (netsh_del ''ipv6'' ''::/1'' tunName gw6) (cl5, st5);
                        s7 = try_add sys (netsh_add ''ipv6'' ''8000::/1'' tunName gw6) (netsh_del ''ipv6'' ''8000::/1'' tunName gw6) s6;
                        s9 = windows_set_dns sys tunName gw4 s7
                    in (Inr (win_revert_cmds (fst s9)), snd s9))"

section \<open>Other platforms\<close>

definition Apply_other :: "'w sys \<Rightarrow> string \<Rightarrow> string \<Rightarrow> 'w st \<Rightarrow> (route_error + cmd list) \<times> 'w st" where
  "Apply_other sys tunName proxyAddr st = (Inl NotSupported, st)"

fun Apply :: "GOOS \<Rightarrow> 'w sys \<Rightarrow> string \<Rightarrow> string \<Rightarrow> 'w st \<Rightarrow> (route_error + cmd list) \<times> 'w st" where
  "Apply Linux = Apply_linux"
| "Apply Darwin = Apply_darwin"
| "Apply Windows = Apply_windows"
| "Apply OtherOS = Apply_other"

end
