(* ===== verification/Net_Tools.thy ===== *)
theory Net_Tools
  imports Auto_Route
begin

text \<open>
  The tools of the operating system that the route installers run, as their manuals describe them. What a
  tool keeps is a view of the world with a function that reads it and one that replaces it; the laws say
  what one command does to the views, command by command. The lemmas derive from these laws what the
  installers need: that the firewall rules of the program are taken back by its cleanup commands, and that
  the program reads the name servers of a service as they are.
\<close>

section \<open>The Linux firewall\<close>

text \<open>The views: the items of an nft table, named by family and table, \<^const>\<open>None\<close> when there is no such
  table; and the rules of the chain \<^verbatim>\<open>OUTPUT\<close> of the table \<^verbatim>\<open>nat\<close>, for \<^verbatim>\<open>iptables\<close> and \<^verbatim>\<open>ip6tables\<close>.\<close>

record 'w firewall =
  fw_table :: "string \<times> string \<Rightarrow> 'w \<Rightarrow> cmd list option"
  fw_setTable :: "string \<times> string \<Rightarrow> cmd list option \<Rightarrow> 'w \<Rightarrow> 'w"
  fw_chain :: "string \<Rightarrow> 'w \<Rightarrow> cmd list"
  fw_setChain :: "string \<Rightarrow> cmd list \<Rightarrow> 'w \<Rightarrow> 'w"

text \<open>A family of independent views: what was set is read back, the last setting counts, setting what is
  there changes nothing, and settings of different keys do not disturb each other.\<close>

definition views :: "('k \<Rightarrow> 'w \<Rightarrow> 'v) \<Rightarrow> ('k \<Rightarrow> 'v \<Rightarrow> 'w \<Rightarrow> 'w) \<Rightarrow> bool" where
  "views get put \<longleftrightarrow>
     (\<forall>k k' v w. get k' (put k v w) = (if k' = k then v else get k' w)) \<and>
     (\<forall>k v v' w. put k v (put k v' w) = put k v w) \<and>
     (\<forall>k w. put k (get k w) w = w) \<and>
     (\<forall>k k' v v' w. k \<noteq> k' \<longrightarrow> put k v (put k' v' w) = put k' v' (put k v w))"

lemma viewsD:
  assumes "views get put"
  shows "get k' (put k v w) = (if k' = k then v else get k' w)" "put k v (put k v' w) = put k v w" "put k (get k w) w = w"
    "k \<noteq> k' \<Longrightarrow> put k v (put k' v' w) = put k' v' (put k v w)"
  using assms by (auto simp: views_def)

text \<open>Two keys: what is put under the first can be replaced without touching the second.\<close>

lemma views_pair:
  assumes "views get put" "a \<noteq> b"
  shows "put a x' (put a x (put b y w)) = put a x' (put b y w)" "put b y' (put a x (put b y w)) = put a x (put b y' w)"
    "get a (put a x (put b y w)) = x" "get b (put a x (put b y w)) = y" "get a w = x \<Longrightarrow> get b w = y \<Longrightarrow> put a x (put b y w) = w"
proof -
  note v = viewsD [OF assms(1)]
  show "put a x' (put a x (put b y w)) = put a x' (put b y w)" by (rule v(2))
  show "put b y' (put a x (put b y w)) = put a x (put b y' w)"
    unfolding v(4) [OF assms(2) [symmetric]] v(2) ..
  show "get a (put a x (put b y w)) = x" "get b (put a x (put b y w)) = y" using assms(2) by (simp_all add: v(1))
  show "put a x (put b y w) = w" if "get a w = x" "get b w = y"
    using v(3) [of b w] v(3) [of a w] that by simp
qed

text \<open>The commands of nft: \<^verbatim>\<open>add table\<close> creates a table or leaves an existing one alone, \<^verbatim>\<open>add chain\<close> and \<^verbatim>\<open>add rule\<close>
  need the table and append to it, \<^verbatim>\<open>delete table\<close> needs it and removes it with everything in it. A command
  that adds may fail for other reasons as well.\<close>

definition nft_laws :: "'w sys \<Rightarrow> 'w firewall \<Rightarrow> bool" where
  "nft_laws sys fw \<longleftrightarrow>
     views (fw_table fw) (fw_setTable fw) \<and>
     (\<forall>fam t w. fst (fst (sys_exec sys [''nft'', ''add'', ''table'', fam, t] w)) \<longrightarrow>
        snd (sys_exec sys [''nft'', ''add'', ''table'', fam, t] w) =
          (case fw_table fw (fam, t) w of None \<Rightarrow> fw_setTable fw (fam, t) (Some []) w | Some _ \<Rightarrow> w)) \<and>
     (\<forall>kind fam t item w. kind \<in> {''chain'', ''rule''} \<longrightarrow> fst (fst (sys_exec sys (''nft'' # ''add'' # kind # fam # t # item) w)) \<longrightarrow>
        (\<exists>items. fw_table fw (fam, t) w = Some items \<and>
           snd (sys_exec sys (''nft'' # ''add'' # kind # fam # t # item) w) = fw_setTable fw (fam, t) (Some (items @ [kind # item])) w)) \<and>
     (\<forall>fam t w. case fw_table fw (fam, t) w of
          None \<Rightarrow> \<not> fst (fst (sys_exec sys [''nft'', ''delete'', ''table'', fam, t] w))
        | Some _ \<Rightarrow> snd (sys_exec sys [''nft'', ''delete'', ''table'', fam, t] w) = fw_setTable fw (fam, t) None w)"

text \<open>The commands of iptables and ip6tables on the chain: \<^verbatim>\<open>-I\<close> inserts a rule at the head, \<^verbatim>\<open>-D\<close> removes the first rule
  with the same specification and fails when there is none.\<close>

definition iptables_laws :: "'w sys \<Rightarrow> 'w firewall \<Rightarrow> bool" where
  "iptables_laws sys fw \<longleftrightarrow>
     views (fw_chain fw) (fw_setChain fw) \<and>
     (\<forall>prog spec w. prog \<in> {''iptables'', ''ip6tables''} \<longrightarrow> fst (fst (sys_exec sys (prog # ''-t'' # ''nat'' # ''-I'' # ''OUTPUT'' # spec) w)) \<longrightarrow>
        snd (sys_exec sys (prog # ''-t'' # ''nat'' # ''-I'' # ''OUTPUT'' # spec) w) = fw_setChain fw prog (spec # fw_chain fw prog w) w) \<and>
     (\<forall>prog spec w. prog \<in> {''iptables'', ''ip6tables''} \<longrightarrow>
        (if spec \<in> set (fw_chain fw prog w)
         then snd (sys_exec sys (prog # ''-t'' # ''nat'' # ''-D'' # ''OUTPUT'' # spec) w) = fw_setChain fw prog (remove1 spec (fw_chain fw prog w)) w
         else \<not> fst (fst (sys_exec sys (prog # ''-t'' # ''nat'' # ''-D'' # ''OUTPUT'' # spec) w))))"

text \<open>All tools of Linux: a failed command changes nothing, showing routes changes nothing, \<^verbatim>\<open>route del\<close> takes back
  a \<^verbatim>\<open>route add\<close> with the same arguments that succeeded, \<^verbatim>\<open>ip -6\<close> rejects an IPv4 address as a prefix, and \<^verbatim>\<open>ip\<close>
  leaves the firewall alone.\<close>

definition linux_tools :: "'w sys \<Rightarrow> 'w firewall \<Rightarrow> bool" where
  "linux_tools sys fw \<longleftrightarrow>
     fails_clean sys \<and>
     reads_only sys [''ip'', ''route'', ''show'', ''default''] \<and>
     reads_only sys [''ip'', ''-6'', ''route'', ''show'', ''default''] \<and>
     (\<forall>args. undone_by sys (''ip'' # ''route'' # ''add'' # args) (''ip'' # ''route'' # ''del'' # args)) \<and>
     (\<forall>args. undone_by sys (''ip'' # ''-6'' # ''route'' # ''add'' # args) (''ip'' # ''-6'' # ''route'' # ''del'' # args)) \<and>
     (\<forall>a args w. \<not> fst (fst (sys_exec sys (''ip'' # ''-6'' # ''route'' # ''add'' # (appendTo4 a @ ''/128'') # args) w))) \<and>
     (\<forall>args w t. fw_table fw t (snd (sys_exec sys (''ip'' # args) w)) = fw_table fw t w) \<and>
     (\<forall>args w p. fw_chain fw p (snd (sys_exec sys (''ip'' # args) w)) = fw_chain fw p w) \<and>
     nft_laws sys fw \<and> iptables_laws sys fw"

text \<open>A world in which the tables and rules of the program are absent.\<close>

definition rule_spec :: "string \<Rightarrow> string \<Rightarrow> cmd" where
  "rule_spec proto gw = drop 5 (iptables_rule [] [] proto gw)"

definition clean :: "'w firewall \<Rightarrow> string \<Rightarrow> string \<Rightarrow> 'w \<Rightarrow> bool" where
  "clean fw gw4 gw6 w \<longleftrightarrow>
     fw_table fw (''ip'', nftTable4) w = None \<and> fw_table fw (''ip6'', nftTable6) w = None \<and>
     (\<forall>proto \<in> {''udp'', ''tcp''}. rule_spec proto gw4 \<notin> set (fw_chain fw ''iptables'' w) \<and> rule_spec proto gw6 \<notin> set (fw_chain fw ''ip6tables'' w))"

section \<open>The rules are taken back\<close>

lemma nft_views: "nft_laws sys fw \<Longrightarrow> views (fw_table fw) (fw_setTable fw)"
  by (simp add: nft_laws_def)

lemma nft_add_table:
  "nft_laws sys fw \<Longrightarrow> fst (fst (sys_exec sys [''nft'', ''add'', ''table'', fam, t] w)) \<Longrightarrow>
   snd (sys_exec sys [''nft'', ''add'', ''table'', fam, t] w) =
     (case fw_table fw (fam, t) w of None \<Rightarrow> fw_setTable fw (fam, t) (Some []) w | Some _ \<Rightarrow> w)"
  unfolding nft_laws_def by (elim conjE) (simp only:)

lemma nft_add_item:
  assumes "nft_laws sys fw" "kind \<in> {''chain'', ''rule''}" "fst (fst (sys_exec sys (''nft'' # ''add'' # kind # fam # t # item) w))"
  obtains items where "snd (sys_exec sys (''nft'' # ''add'' # kind # fam # t # item) w) = fw_setTable fw (fam, t) (Some items) w"
proof -
  from assms(1) have "\<forall>kind fam t item w. kind \<in> {''chain'', ''rule''} \<longrightarrow> fst (fst (sys_exec sys (''nft'' # ''add'' # kind # fam # t # item) w)) \<longrightarrow>
        (\<exists>items. fw_table fw (fam, t) w = Some items \<and>
           snd (sys_exec sys (''nft'' # ''add'' # kind # fam # t # item) w) = fw_setTable fw (fam, t) (Some (items @ [kind # item])) w)"
    unfolding nft_laws_def by (elim conjE)
  note this [rule_format, OF assms(2,3)]
  then show thesis using that by (elim exE conjE)
qed

lemma nft_delete_table:
  assumes "nft_laws sys fw" "fails_clean sys"
  shows "snd (sys_exec sys [''nft'', ''delete'', ''table'', fam, t] w) = fw_setTable fw (fam, t) None w"
proof -
  have "\<forall>fam t w. case fw_table fw (fam, t) w of
          None \<Rightarrow> \<not> fst (fst (sys_exec sys [''nft'', ''delete'', ''table'', fam, t] w))
        | Some _ \<Rightarrow> snd (sys_exec sys [''nft'', ''delete'', ''table'', fam, t] w) = fw_setTable fw (fam, t) None w"
    using assms(1) unfolding nft_laws_def by (elim conjE)
  note this [rule_format, of fam t w]
  then show ?thesis
    using assms(2) viewsD(3) [OF nft_views [OF assms(1)], of "(fam, t)" w]
    by (cases "fw_table fw (fam, t) w") (simp_all add: fails_clean_def)
qed

text \<open>Whatever part of the nft commands took effect, the world differs at most in the two tables.\<close>

abbreviation with_tables :: "'w firewall \<Rightarrow> cmd list option \<Rightarrow> cmd list option \<Rightarrow> 'w \<Rightarrow> 'w" where
  "with_tables fw a b w \<equiv> fw_setTable fw (''ip'', nftTable4) a (fw_setTable fw (''ip6'', nftTable6) b w)"

lemma nft_cmds_form:
  assumes "c \<in> set (nft_cmds gw4 gw6)"
  shows "\<exists>kind fam t x. c = ''nft'' # ''add'' # kind # fam # t # x \<and> (kind = ''table'' \<and> x = [] \<or> kind \<in> {''chain'', ''rule''}) \<and>
    ((fam, t) = (''ip'', nftTable4) \<or> (fam, t) = (''ip6'', nftTable6))"
  using assms by (auto simp: nft_cmds_def nft_rule_def)

lemma nft_add_step:
  assumes "nft_laws sys fw" "c \<in> set (nft_cmds gw4 gw6)" "fst (fst (sys_exec sys c (with_tables fw a b w)))"
  shows "\<exists>a' b'. snd (sys_exec sys c (with_tables fw a b w)) = with_tables fw a' b' w"
proof -
  have ne: "(''ip'', nftTable4) \<noteq> (''ip6'', nftTable6)" by simp
  note pair = views_pair [OF nft_views [OF assms(1)] ne]
  let ?w = "with_tables fw a b w" and ?own = "\<lambda>k. k = (''ip'', nftTable4) \<or> k = (''ip6'', nftTable6)"
  have set: "\<exists>a' b'. fw_setTable fw k x ?w = with_tables fw a' b' w" if "?own k" for k x
    using that pair(1,2) by (elim disjE) (simp, intro exI, rule refl)+
  have table: "\<exists>a' b'. snd (sys_exec sys c ?w) = with_tables fw a' b' w"
    if "c = [''nft'', ''add'', ''table'', fam, t]" "?own (fam, t)" for fam t
    using nft_add_table [OF assms(1), of fam t ?w] assms(3) set [OF that(2)] that(1) by (auto split: option.splits)
  have item: "\<exists>a' b'. snd (sys_exec sys c ?w) = with_tables fw a' b' w"
    if "c = ''nft'' # ''add'' # kind # fam # t # x" "kind \<in> {''chain'', ''rule''}" "?own (fam, t)" for kind fam t x
    using nft_add_item [OF assms(1) that(2) assms(3) [unfolded that(1)]] set [OF that(3)] that(1) by metis
  show ?thesis using nft_cmds_form [OF assms(2)] table item by metis
qed

lemma nft_group_undone:
  assumes "linux_tools sys fw" "clean fw gw4 gw6 w"
  shows "group_undone sys (nft_cmds gw4' gw6') cleanupNft w"
  unfolding group_undone_def
proof (intro allI impI)
  have laws: "nft_laws sys fw" "fails_clean sys" using assms(1) by (simp_all add: linux_tools_def)
  have ne: "(''ip'', nftTable4) \<noteq> (''ip6'', nftTable6)" by simp
  note pair = views_pair [OF nft_views [OF laws(1)] ne]
  have none: "with_tables fw None None w = w" using pair(5) [of w None None] assms(2) by (simp add: clean_def)
  fix xs assume "subseq xs (nft_cmds gw4' gw6')"
  then have "set xs \<subseteq> set (nft_cmds gw4' gw6')" by (auto dest: list_emb_set)
  moreover assume "all_ok sys xs w"
  ultimately have "\<exists>a b. world_after sys xs w = with_tables fw a b w"
  proof (induction xs rule: rev_induct)
    case Nil
    show ?case using none by (intro exI [of _ None]) simp
  next
    case (snoc c xs)
    then obtain a b where "world_after sys xs w = with_tables fw a b w" by (auto simp: all_ok_append)
    with snoc.prems nft_add_step [OF laws(1), of c gw4' gw6' a b w] show ?case by (simp add: all_ok_append world_after_append)
  qed
  then obtain a b where "world_after sys xs w = with_tables fw a b w" by blast
  then show "world_after sys cleanupNft (world_after sys xs w) = w"
    by (simp add: cleanupNft_def nft_delete_table [OF laws] pair(1,2) none)
qed

text \<open>The same for the rules of iptables: each is inserted at the head of its chain at most once, and the cleanup
  removes the first rule with its specification.\<close>

definition iptables_cmds :: "string \<Rightarrow> string \<Rightarrow> cmd list" where
  "iptables_cmds gw4 gw6 =
     [iptables_rule ''iptables'' ''-I'' ''udp'' gw4, iptables_rule ''iptables'' ''-I'' ''tcp'' gw4,
      iptables_rule ''ip6tables'' ''-I'' ''udp'' gw6, iptables_rule ''ip6tables'' ''-I'' ''tcp'' gw6]"

lemma iptables_rule_spec: "iptables_rule prog act proto gw = prog # ''-t'' # ''nat'' # act # ''OUTPUT'' # rule_spec proto gw"
  by (simp add: iptables_rule_def rule_spec_def)

lemma rule_spec_proto: "rule_spec proto gw = rule_spec proto' gw' \<longleftrightarrow> proto = proto' \<and> gw = gw'"
  by (auto simp: rule_spec_def iptables_rule_def)

lemma iptables_views: "iptables_laws sys fw \<Longrightarrow> views (fw_chain fw) (fw_setChain fw)"
  by (simp add: iptables_laws_def)

lemma iptables_insert:
  assumes "iptables_laws sys fw" "prog \<in> {''iptables'', ''ip6tables''}" "fst (fst (sys_exec sys (iptables_rule prog ''-I'' proto gw) w))"
  shows "snd (sys_exec sys (iptables_rule prog ''-I'' proto gw) w) = fw_setChain fw prog (rule_spec proto gw # fw_chain fw prog w) w"
  using assms unfolding iptables_laws_def iptables_rule_spec by (elim conjE) (simp only:)

lemma iptables_remove:
  assumes "iptables_laws sys fw" "fails_clean sys" "prog \<in> {''iptables'', ''ip6tables''}"
  shows "snd (sys_exec sys (iptables_rule prog ''-D'' proto gw) w) = fw_setChain fw prog (remove1 (rule_spec proto gw) (fw_chain fw prog w)) w"
proof -
  have "\<forall>prog spec w. prog \<in> {''iptables'', ''ip6tables''} \<longrightarrow>
        (if spec \<in> set (fw_chain fw prog w)
         then snd (sys_exec sys (prog # ''-t'' # ''nat'' # ''-D'' # ''OUTPUT'' # spec) w) = fw_setChain fw prog (remove1 spec (fw_chain fw prog w)) w
         else \<not> fst (fst (sys_exec sys (prog # ''-t'' # ''nat'' # ''-D'' # ''OUTPUT'' # spec) w)))"
    using assms(1) unfolding iptables_laws_def by (elim conjE)
  note this [rule_format, OF assms(3), of "rule_spec proto gw" w, folded iptables_rule_spec]
  then show ?thesis
    using assms(2) viewsD(3) [OF iptables_views [OF assms(1)], of prog w]
    by (cases "rule_spec proto gw \<in> set (fw_chain fw prog w)") (simp_all add: fails_clean_def remove1_idem)
qed

lemma remove_both:
  assumes "distinct as" "set as \<subseteq> {u, t}" "u \<notin> set c" "t \<notin> set c"
  shows "remove1 t (remove1 u (as @ c)) = c"
  using assms by (cases as; cases "tl as"; cases "tl (tl as)") (auto simp: remove1_idem)

abbreviation with_chains :: "'w firewall \<Rightarrow> cmd list \<Rightarrow> cmd list \<Rightarrow> 'w \<Rightarrow> 'w" where
  "with_chains fw a b w \<equiv> fw_setChain fw ''iptables'' a (fw_setChain fw ''ip6tables'' b w)"

lemma subseq_distinct: "subseq xs ys \<Longrightarrow> distinct ys \<Longrightarrow> distinct xs"
  by (induction rule: list_emb.induct) (auto dest: list_emb_set)

definition inserted :: "string \<Rightarrow> string \<Rightarrow> cmd list \<Rightarrow> cmd list \<Rightarrow> bool" where
  "inserted prog gw xs specs \<longleftrightarrow> distinct specs \<and>
     (\<forall>s \<in> set specs. \<exists>proto \<in> {''udp'', ''tcp''}. s = rule_spec proto gw \<and> iptables_rule prog ''-I'' proto gw \<in> set xs)"

lemma inserted_snoc:
  "inserted prog gw xs specs \<Longrightarrow> inserted prog gw (xs @ [c]) specs"
  "inserted prog gw xs specs \<Longrightarrow> iptables_rule prog ''-I'' proto gw \<notin> set xs \<Longrightarrow> proto \<in> {''udp'', ''tcp''} \<Longrightarrow>
     inserted prog gw (xs @ [iptables_rule prog ''-I'' proto gw]) (rule_spec proto gw # specs)"
  by (auto simp: inserted_def rule_spec_proto)

lemma iptables_cmds_form:
  "c \<in> set (iptables_cmds gw4 gw6) \<Longrightarrow>
   \<exists>proto \<in> {''udp'', ''tcp''}. c = iptables_rule ''iptables'' ''-I'' proto gw4 \<or> c = iptables_rule ''ip6tables'' ''-I'' proto gw6"
  by (auto simp: iptables_cmds_def)

lemma iptables_inserted:
  assumes laws: "iptables_laws sys fw" and "distinct xs" "set xs \<subseteq> set (iptables_cmds gw4 gw6)" "all_ok sys xs w"
  shows "\<exists>as bs. world_after sys xs w = with_chains fw (as @ fw_chain fw ''iptables'' w) (bs @ fw_chain fw ''ip6tables'' w) w \<and>
      inserted ''iptables'' gw4 xs as \<and> inserted ''ip6tables'' gw6 xs bs"
  using assms(2-)
proof (induction xs rule: rev_induct)
  case Nil
  have "with_chains fw (fw_chain fw ''iptables'' w) (fw_chain fw ''ip6tables'' w) w = w"
    by (simp add: viewsD(3) [OF iptables_views [OF laws]])
  then show ?case by (intro exI [of _ "[]"]) (simp add: inserted_def)
next
  case (snoc c xs)
  define c4 c6 where "c4 = fw_chain fw ''iptables'' w" and "c6 = fw_chain fw ''ip6tables'' w"
  have ne: "''iptables'' \<noteq> ''ip6tables''" by simp
  note pair = views_pair [OF iptables_views [OF laws] ne]
  obtain as bs where w: "world_after sys xs w = with_chains fw (as @ c4) (bs @ c6) w"
    and i: "inserted ''iptables'' gw4 xs as" "inserted ''ip6tables'' gw6 xs bs"
    using snoc by (auto simp: all_ok_append c4_def c6_def)
  obtain proto where p: "proto \<in> {''udp'', ''tcp''}" "c = iptables_rule ''iptables'' ''-I'' proto gw4 \<or> c = iptables_rule ''ip6tables'' ''-I'' proto gw6"
    using iptables_cmds_form [of c gw4 gw6] snoc.prems by auto
  have ok: "fst (fst (sys_exec sys c (with_chains fw (as @ c4) (bs @ c6) w)))" and new: "c \<notin> set xs"
    using snoc.prems w by (auto simp: all_ok_append)
  from p(2) show ?case
  proof
    assume c: "c = iptables_rule ''iptables'' ''-I'' proto gw4"
    then have "world_after sys (xs @ [c]) w = with_chains fw ((rule_spec proto gw4 # as) @ c4) (bs @ c6) w"
      using iptables_insert [OF laws _ ok [unfolded c]] by (simp add: world_after_append w pair)
    with inserted_snoc(2) [OF i(1) new [unfolded c] p(1), folded c] inserted_snoc(1) [OF i(2), of c]
    show ?thesis unfolding c4_def [symmetric] c6_def [symmetric] by blast
  next
    assume c: "c = iptables_rule ''ip6tables'' ''-I'' proto gw6"
    then have "world_after sys (xs @ [c]) w = with_chains fw (as @ c4) ((rule_spec proto gw6 # bs) @ c6) w"
      using iptables_insert [OF laws _ ok [unfolded c]] by (simp add: world_after_append w pair)
    with inserted_snoc(2) [OF i(2) new [unfolded c] p(1), folded c] inserted_snoc(1) [OF i(1), of c]
    show ?thesis unfolding c4_def [symmetric] c6_def [symmetric] by blast
  qed
qed

lemma iptables_group_undone:
  assumes "linux_tools sys fw" "clean fw gw4 gw6 w"
  shows "group_undone sys (iptables_cmds gw4 gw6) (cleanupIPTables gw4 gw6) w"
  unfolding group_undone_def
proof (intro allI impI)
  have laws: "iptables_laws sys fw" "fails_clean sys" using assms(1) by (simp_all add: linux_tools_def)
  have ne: "''iptables'' \<noteq> ''ip6tables''" by simp
  note pair = views_pair [OF iptables_views [OF laws(1)] ne]
  fix xs assume "subseq xs (iptables_cmds gw4 gw6)" "all_ok sys xs w"
  moreover have "distinct (iptables_cmds gw4 gw6)" by (simp add: iptables_cmds_def iptables_rule_spec rule_spec_proto)
  ultimately have "distinct xs" "set xs \<subseteq> set (iptables_cmds gw4 gw6)" "all_ok sys xs w" by (auto dest: list_emb_set subseq_distinct)
  then obtain as bs where w: "world_after sys xs w = with_chains fw (as @ fw_chain fw ''iptables'' w) (bs @ fw_chain fw ''ip6tables'' w) w"
    and i: "inserted ''iptables'' gw4 xs as" "inserted ''ip6tables'' gw6 xs bs" using iptables_inserted [OF laws(1)] by blast
  have "remove1 (rule_spec ''tcp'' gw4) (remove1 (rule_spec ''udp'' gw4) (as @ fw_chain fw ''iptables'' w)) = fw_chain fw ''iptables'' w"
    "remove1 (rule_spec ''tcp'' gw6) (remove1 (rule_spec ''udp'' gw6) (bs @ fw_chain fw ''ip6tables'' w)) = fw_chain fw ''ip6tables'' w"
    using i assms(2) by (auto intro!: remove_both simp: inserted_def clean_def)
  then show "world_after sys (cleanupIPTables gw4 gw6) (world_after sys xs w) = w"
    by (simp add: cleanupIPTables_def iptables_remove [OF laws] w pair viewsD(3) [OF iptables_views [OF laws(1)]] del: remove1_append)
qed

section \<open>The name servers of Darwin\<close>

text \<open>The views: the name servers of a network service, and whether there is such a service.\<close>

record 'w resolver =
  rs_servers :: "string \<Rightarrow> 'w \<Rightarrow> string list"
  rs_setServers :: "string \<Rightarrow> string list \<Rightarrow> 'w \<Rightarrow> 'w"
  rs_service :: "string \<Rightarrow> 'w \<Rightarrow> bool"

text \<open>A name server is given by its address, a text without space; the word \<^verbatim>\<open>empty\<close> is not one.\<close>

definition server_text :: "string \<Rightarrow> bool" where
  "server_text s \<longleftrightarrow> s \<noteq> [] \<and> list_all (\<lambda>c. \<not> is_space c) s \<and> s \<noteq> ''empty''"

text \<open>What \<^verbatim>\<open>networksetup -getdnsservers\<close> prints: one server per line, or a sentence when there are none.\<close>

definition servers_text :: "string \<Rightarrow> string list \<Rightarrow> string" where
  "servers_text svc servers =
     (if servers = [] then ''There aren'' @ [quote_char] @ ''t any DNS Servers set on '' @ svc @ ''.'' @ [newline]
      else concat (map (\<lambda>s. s @ [newline]) servers))"

text \<open>The tools of Darwin: a failed command changes nothing, reading changes nothing, \<^verbatim>\<open>route delete\<close> takes back a
  \<^verbatim>\<open>route add\<close> with the same arguments that succeeded, \<^verbatim>\<open>route\<close> leaves the name servers alone, and
  \<^verbatim>\<open>networksetup\<close> prints and replaces the servers of an existing service, where \<^verbatim>\<open>empty\<close> stands for none.\<close>

definition darwin_tools :: "'w sys \<Rightarrow> 'w resolver \<Rightarrow> bool" where
  "darwin_tools sys rs \<longleftrightarrow>
     fails_clean sys \<and>
     reads_only sys [''route'', ''get'', ''8.8.8.8''] \<and>
     reads_only sys [''networksetup'', ''-listallhardwareports''] \<and>
     (\<forall>svc. reads_only sys [''networksetup'', ''-getdnsservers'', svc]) \<and>
     (\<forall>args. undone_by sys (''route'' # ''add'' # args) (''route'' # ''delete'' # args)) \<and>
     (\<forall>svc args w. rs_servers rs svc (snd (sys_exec sys (''route'' # args) w)) = rs_servers rs svc w) \<and>
     views (rs_servers rs) (rs_setServers rs) \<and>
     (\<forall>svc svc' v w. rs_service rs svc (rs_setServers rs svc' v w) = rs_service rs svc w) \<and>
     (\<forall>svc w. rs_service rs svc w \<longrightarrow>
        fst (sys_exec sys [''networksetup'', ''-getdnsservers'', svc] w) = (True, servers_text svc (rs_servers rs svc w))) \<and>
     (\<forall>svc args w. args \<noteq> [] \<longrightarrow> args = [''empty''] \<or> list_all server_text args \<longrightarrow>
        (if rs_service rs svc w
         then snd (sys_exec sys (''networksetup'' # ''-setdnsservers'' # svc # args) w) =
                rs_setServers rs svc (if args = [''empty''] then [] else args) w
         else \<not> fst (fst (sys_exec sys (''networksetup'' # ''-setdnsservers'' # svc # args) w))))"

definition servers_ok :: "'w resolver \<Rightarrow> 'w \<Rightarrow> bool" where
  "servers_ok rs w \<longleftrightarrow> (\<forall>svc. list_all server_text (rs_servers rs svc w))"

lemma Scanner_lines_text: "list_all (\<lambda>s. newline \<notin> set s \<and> drop_cr s = s) xs \<Longrightarrow> Scanner_lines (concat (map (\<lambda>s. s @ [newline]) xs)) = xs"
proof -
  assume xs: "list_all (\<lambda>s. newline \<notin> set s \<and> drop_cr s = s) xs"
  then have "Split (concat (map (\<lambda>s. s @ [newline]) xs)) newline = xs @ [[]]"
    by (induction xs) (auto simp: Split_first)
  moreover have "map drop_cr xs = xs"
    using xs by (intro map_idI) (auto simp: list_all_iff)
  ultimately show ?thesis by (simp add: Scanner_lines_def)
qed

lemma keep_server_text: "server_text s \<Longrightarrow> keep_server s = Some s"
proof -
  assume s: "server_text s"
  then have "TrimSpace s = s" by (intro TrimSpace_same) (auto simp: server_text_def list_all_iff)
  moreover have "CHR '' '' \<notin> set s" using s by (auto simp: server_text_def list_all_iff is_space_def)
  then have "\<not> Contains s (''aren'' @ [quote_char] @ ''t any'')" using Contains_subset [of s "''aren'' @ [quote_char] @ ''t any''"] by auto
  ultimately show ?thesis using s by (simp add: keep_server_def server_text_def)
qed

lemma keep_server_none: "keep_server (''There aren'' @ [quote_char] @ ''t any DNS Servers set on '' @ svc @ ''.'') = None"
proof -
  let ?s = "''There aren'' @ [quote_char] @ ''t any DNS Servers set on '' @ svc @ ''.''"
  have "TrimSpace ?s = ?s" by (intro TrimSpace_same) (auto simp: is_space_def)
  moreover have "Contains ?s (''aren'' @ [quote_char] @ ''t any'')"
    using Contains_middle [of "''There ''" "''aren'' @ [quote_char] @ ''t any''" "'' DNS Servers set on '' @ svc @ ''.''"] by simp
  ultimately show ?thesis by (simp add: keep_server_def Let_def)
qed

text \<open>The program reads the servers of a service as they are.\<close>

lemma read_servers:
  assumes "list_all server_text servers" "newline \<notin> set svc"
  shows "List.map_filter keep_server (Scanner_lines (servers_text svc servers)) = servers"
proof (cases "servers = []")
  case True
  let ?s = "''There aren'' @ [quote_char] @ ''t any DNS Servers set on '' @ svc @ ''.''"
  have "list_all (\<lambda>s. newline \<notin> set s \<and> drop_cr s = s) [?s]"
    using assms(2) by (auto simp: newline_def quote_char_def drop_cr_def)
  from Scanner_lines_text [OF this] True show ?thesis
    by (simp add: servers_text_def) (simp add: List.map_filter_simps keep_server_none [simplified])
next
  case False
  have "list_all (\<lambda>s. newline \<notin> set s \<and> drop_cr s = s) servers"
    using assms(1) by (auto simp: list_all_iff server_text_def is_space_def newline_def drop_cr_def dest: last_in_set)
  moreover have "List.map_filter keep_server servers = servers"
    using assms(1) by (induction servers) (auto simp: List.map_filter_simps keep_server_text)
  ultimately show ?thesis using False by (simp add: servers_text_def Scanner_lines_text)
qed

text \<open>The name of a service is part of one line of the output it is read from.\<close>

lemma find_service_chars:
  "find_service iface cur ls = Some svc \<Longrightarrow> set svc \<subseteq> set cur \<union> \<Union> (set ` set ls)"
proof (induction iface cur ls rule: find_service.induct)
  case (2 iface cur l ls)
  have "set (TrimSpace (TrimPrefix (TrimSpace l) p)) \<subseteq> set l" for p
    using TrimSpace_subset [of "TrimPrefix (TrimSpace l) p"] TrimPrefix_subset [of "TrimSpace l" p] TrimSpace_subset [of l] by blast
  with 2 show ?case by (fastforce simp: Let_def split: if_splits)
qed simp

lemma Scanner_lines_newline: "l \<in> set (Scanner_lines s) \<Longrightarrow> newline \<notin> set l"
proof -
  assume "l \<in> set (Scanner_lines s)"
  then obtain p where p: "p \<in> set (Split s newline)" "l = drop_cr p" by (auto simp: Scanner_lines_def Let_def split: if_splits dest: in_set_butlastD)
  moreover have "set (drop_cr p) \<subseteq> set p" by (auto simp: drop_cr_def dest: in_set_butlastD)
  ultimately show ?thesis using Split_parts by blast
qed

lemma serviceForInterface_name: "fst (serviceForInterface sys iface st) = Some svc \<Longrightarrow> newline \<notin> set svc"
  using find_service_chars [of iface "[]" _ svc] Scanner_lines_newline
  by (fastforce simp: serviceForInterface_def split: prod.splits option.splits)

end
