(* ===== verification/Route_Undo.thy ===== *)
theory Route_Undo
  imports Net_Tools
begin

text \<open>
  What the cleanup of the route installers achieves. Linux and Darwin: under the laws of the single commands
  of their tools the cleanup takes the world back. Windows: the commands and the cleanup exactly, the last
  first. Darwin and Windows: the error path of the first half of the default route leaves the bypass
  routes behind. The contracts the drivers rely on are the locales \<open>route_installer\<close> and \<open>platform_undo\<close>.
\<close>

section \<open>Undoing the steps\<close>

lemma restores_revert: "world_after sys (revert_cmds cl) w = w0 \<longleftrightarrow> restores sys cl w w0"
  by (simp add: revert_cmds_def restores_def)

lemma add_bypass_restores:
  assumes "fails_clean sys" "\<And>ip. undone_by sys (add ip) (del ip)"
    and "restores sys cl (fst st) w0" "add_bypass sys add del ips (cl, st) = (cl', st')"
  shows "restores sys cl' (fst st') w0"
  using assms(3,4)
proof (induction ips arbitrary: cl st)
  case (Cons ip ips)
  obtain ok st1 where r: "run sys (add ip) st = (ok, st1)" by (cases "run sys (add ip) st")
  from restores_run [OF Cons.prems(1) assms(1,2) r] Cons.prems(2) r show ?case
    by (auto intro: Cons.IH split: if_splits)
qed simp

lemma try_add_restores:
  assumes "fails_clean sys" "undone_by sys add del" "restores sys (fst s) (fst (snd s)) w0"
  shows "restores sys (fst (try_add sys add del s)) (fst (snd (try_add sys add del s))) w0"
proof -
  obtain ok st' where r: "run sys add (snd s) = (ok, st')" by (cases "run sys add (snd s)")
  from restores_run [OF assms(3,1,2) r] show ?thesis by (simp add: try_add_def r split: if_splits)
qed

lemma group_restores:
  assumes "restores sys cl w w0" "group_undone sys cs ds w" "subseq xs cs" "all_ok sys xs w" "w' = world_after sys xs w"
  shows "world_after sys ds w' = w" "restores sys (cl @ [ds]) w' w0"
proof -
  show "world_after sys ds w' = w" using assms(2-5) by (auto simp: group_undone_def)
  then show "restores sys (cl @ [ds]) w' w0" using assms(1) by (simp add: restores_push)
qed

lemma applyNft_effect:
  assumes "fails_clean sys" "group_undone sys (nft_cmds gw4 gw6) cleanupNft (fst st)" "restores sys cl (fst st) w0"
    and "applyNft sys gw4 gw6 st = (ok, st')"
  shows "restores sys (if ok then cl @ [cleanupNft] else cl) (fst st') w0"
proof -
  obtain a st1 where r: "run_until_error sys (nft_cmds gw4 gw6) st = (a, st1)"
    by (cases "run_until_error sys (nft_cmds gw4 gw6) st")
  obtain xs where xs: "subseq xs (nft_cmds gw4 gw6)" "all_ok sys xs (fst st)" "fst st1 = world_after sys xs (fst st)"
    using run_until_error_effective [OF assms(1) r] by blast
  note g = group_restores [OF assms(3,2) xs]
  show ?thesis
    using assms(3,4) g r by (cases a) (auto simp: applyNft_def run_each_world)
qed

lemma applyIPTables_effect:
  assumes "fails_clean sys" "group_undone sys (iptables_cmds gw4 gw6) (cleanupIPTables gw4 gw6) (fst st)"
    and "restores sys cl (fst st) w0" "applyIPTables sys gw4 gw6 st = (ok, st')"
  shows "restores sys (if ok then cl @ [cleanupIPTables gw4 gw6] else cl) (fst st') w0"
proof -
  define as bs where "as = take 2 (iptables_cmds gw4 gw6)" and "bs = drop 2 (iptables_cmds gw4 gw6)"
  have ab: "as @ bs = iptables_cmds gw4 gw6" by (simp add: as_def bs_def)
  obtain a st1 where r: "run_until_error sys as st = (a, st1)" by (cases "run_until_error sys as st")
  obtain xs where xs: "subseq xs as" "all_ok sys xs (fst st)" "fst st1 = world_after sys xs (fst st)"
    using run_until_error_effective [OF assms(1) r] by blast
  obtain ys where ys: "subseq ys bs" "all_ok sys ys (fst st1)" "world_after sys bs (fst st1) = world_after sys ys (fst st1)"
    using world_after_effective [OF assms(1)] by blast
  have app: "applyIPTables sys gw4 gw6 st =
      (if \<not> a then (False, run_each sys (cleanupIPTables gw4 gw6) st1) else (True, run_each sys bs st1))"
    using r by (simp add: applyIPTables_def as_def bs_def iptables_cmds_def)
  have "subseq xs (as @ bs)" "subseq (xs @ ys) (as @ bs)" using xs(1) ys(1) by (auto intro: list_emb_append_mono)
  then have "world_after sys (cleanupIPTables gw4 gw6) (fst st1) = fst st"
    "restores sys (cl @ [cleanupIPTables gw4 gw6]) (world_after sys bs (fst st1)) w0"
    using group_restores(1) [OF assms(3,2) _ xs(2,3)] group_restores(2) [OF assms(3,2), of "xs @ ys"] xs(2,3) ys(2,3)
    by (simp_all add: ab all_ok_append world_after_append)
  then show ?thesis using assms(3,4) app by (cases a) (auto simp: run_each_world)
qed

section \<open>Linux: the cleanup restores the world\<close>

text \<open>A world without the firewall tables and rules of the program.\<close>

definition rules_absent :: "'w firewall \<Rightarrow> 'w \<Rightarrow> bool" where
  "rules_absent fw w \<longleftrightarrow> clean fw (Addr_String GatewayIPv4) (Addr_String GatewayIPv6) w"


lemma redirect_dns_restores:
  assumes "linux_tools sys fw" "clean fw gw4 gw6 (fst (snd s))" "restores sys (fst s) (fst (snd s)) w0"
  shows "restores sys (fst (redirect_dns sys gw4 gw6 s)) (fst (snd (redirect_dns sys gw4 gw6 s))) w0"
proof -
  have h: "fails_clean sys" "group_undone sys (nft_cmds gw4 gw6) cleanupNft (fst (snd s))"
      "group_undone sys (iptables_cmds gw4 gw6) (cleanupIPTables gw4 gw6) (fst (snd s))"
    using assms(1) nft_group_undone [OF assms(1,2)] iptables_group_undone [OF assms(1,2)] by (simp_all add: linux_tools_def)
  obtain a st1 where n: "applyNft sys gw4 gw6 (snd s) = (a, st1)" by (cases "applyNft sys gw4 gw6 (snd s)")
  obtain b st2 where t: "applyIPTables sys gw4 gw6 (snd s) = (b, st2)" by (cases "applyIPTables sys gw4 gw6 (snd s)")
  show ?thesis
    using applyNft_effect [OF h(1,2) assms(3) n] applyIPTables_effect [OF h(1,3) assms(3) t] assms(3) n t
    by (auto simp: redirect_dns_def split: if_splits)
qed

lemma map_filter_mem: "y \<in> set (List.map_filter f xs) \<longleftrightarrow> (\<exists>x \<in> set xs. f x = Some y)"
  by (force simp: List.map_filter_def)

lemma To4_String_dotted: "ParseIP_To4_String x = Some ip \<Longrightarrow> \<exists>a. ip = appendTo4 a"
  by (auto simp: ParseIP_To4_String_def split: option.splits if_splits Addr.splits)

lemma resolveProxyHost_v4: "ip \<in> set (resolveProxyHost sys st p) \<Longrightarrow> \<exists>a. ip = appendTo4 a"
  by (auto simp: resolveProxyHost_def map_filter_mem dest: To4_String_dotted split: option.splits if_splits)

lemma bypass6_no_effect:
  assumes "linux_tools sys fw" "\<forall>ip \<in> set ips. \<exists>a. ip = appendTo4 a"
  shows "world_after sys (bypass6_cmds gw dev ips) w = w"
  using assms(2)
proof (induction ips arbitrary: w)
  case (Cons ip ips)
  then obtain a where "ip = appendTo4 a" by auto
  then have "snd (sys_exec sys (''ip'' # ''-6'' # ''route'' # ''add'' # (ip @ ''/128'') # [''via'', gw, ''dev'', dev]) w) = w"
    using assms(1) unfolding linux_tools_def fails_clean_def by blast
  with Cons show ?case by (simp add: bypass6_cmds_def)
qed (simp add: bypass6_cmds_def)

lemma defaultGateway_reads:
  assumes "linux_tools sys fw"
  shows "fst (snd (defaultGateway4 sys st)) = fst st" "fst (snd (defaultGateway6 sys st)) = fst st"
  using assms reads_only_Output [of sys _ st]
  by (auto simp: linux_tools_def defaultGateway4_def defaultGateway6_def split: prod.split option.split
      dest: reads_only_Output [of sys _ st])

text \<open>The commands of \<^verbatim>\<open>ip\<close> keep the firewall free of the rules.\<close>

lemma absent_run: "linux_tools sys fw \<Longrightarrow> clean fw gw4 gw6 (fst st) \<Longrightarrow> clean fw gw4 gw6 (fst (snd (run sys (''ip'' # args) st)))"
  by (simp add: linux_tools_def run_world clean_def)

lemma absent_add_bypass:
  assumes "linux_tools sys fw" "clean fw gw4 gw6 (fst st)" "\<And>ip. hd (add ip) = ''ip'' \<and> add ip \<noteq> []"
    and "add_bypass sys add del ips (cl, st) = (cl', st')"
  shows "clean fw gw4 gw6 (fst st')"
  using assms(2,4)
proof (induction ips arbitrary: cl st)
  case (Cons ip ips)
  obtain args where a: "add ip = ''ip'' # args" using assms(3) [of ip] by (cases "add ip") auto
  obtain ok st1 where r: "run sys (add ip) st = (ok, st1)" by (cases "run sys (add ip) st")
  then have "clean fw gw4 gw6 (fst st1)" using absent_run [OF assms(1) Cons.prems(1), of args] by (simp add: a)
  with Cons r show ?case by (auto split: if_splits)
qed simp

lemma absent_try_add:
  "linux_tools sys fw \<Longrightarrow> clean fw gw4 gw6 (fst (snd s)) \<Longrightarrow> clean fw gw4 gw6 (fst (snd (try_add sys (''ip'' # args) del s)))"
  using absent_run [of sys fw gw4 gw6 "snd s" args] by (simp add: try_add_def case_prod_beta Let_def)

lemma linux_ipv6_dns_restores:
  assumes tools: "linux_tools sys fw" and "clean fw gw4 gw6 (fst (snd s))" "restores sys (fst s) (fst (snd s)) w0"
    and ips: "\<forall>ip \<in> set ips. \<exists>a. ip = appendTo4 a"
  shows "restores sys (fst (linux_ipv6_dns sys tunName gw4 gw6 ips s)) (fst (snd (linux_ipv6_dns sys tunName gw4 gw6 ips s))) w0"
proof -
  define st4 where "st4 = snd (defaultGateway6 sys (snd s))"
  define st5 where "st5 = (case fst (defaultGateway6 sys (snd s)) of
      Some (origGW6, origDev6) \<Rightarrow> if origGW6 \<noteq> [] then run_each sys (bypass6_cmds origGW6 origDev6 ips) st4 else st4
    | None \<Rightarrow> st4)"
  define s6 where "s6 = try_add sys [''ip'', ''-6'', ''route'', ''add'', ''default'', ''via'', gw6, ''dev'', tunName]
      [''ip'', ''-6'', ''route'', ''del'', ''default'', ''via'', gw6, ''dev'', tunName] (fst s, st5)"
  have eq: "linux_ipv6_dns sys tunName gw4 gw6 ips s = redirect_dns sys gw4 gw6 s6"
    unfolding linux_ipv6_dns_def s6_def st5_def st4_def Let_def case_prod_beta by simp
  have "fst st4 = fst (snd s)" by (simp add: st4_def defaultGateway_reads(2) [OF tools])
  then have w5: "fst st5 = fst (snd s)"
    using ips by (simp add: st5_def run_each_world bypass6_no_effect [OF tools] split: option.split)
  have fc: "fails_clean sys" and u6: "undone_by sys (''ip'' # ''-6'' # ''route'' # ''add'' # args) (''ip'' # ''-6'' # ''route'' # ''del'' # args)" for args
    using tools by (simp_all add: linux_tools_def)
  have "restores sys (fst s6) (fst (snd s6)) w0"
    unfolding s6_def by (rule try_add_restores [OF fc u6]) (use assms(3) w5 in simp)
  moreover have "clean fw gw4 gw6 (fst (snd s6))"
    unfolding s6_def by (rule absent_try_add [OF tools]) (simp add: w5 assms(2))
  ultimately show ?thesis unfolding eq by (intro redirect_dns_restores [OF tools])
qed

text \<open>The first half: the bypass routes and the default route.\<close>

lemma linux_ipv4_restores:
  fixes gw dev :: string
  assumes tools: "linux_tools sys fw" and "clean fw gw4 gw6 (fst st1)"
    and b: "add_bypass sys (\<lambda>ip. [''ip'', ''route'', ''add'', ip @ ''/32'', ''via'', gw, ''dev'', dev])
      (\<lambda>ip. [''ip'', ''route'', ''del'', ip @ ''/32'', ''via'', gw, ''dev'', dev]) ips ([], st1) = (cl1, st2)"
    and d: "run sys (''ip'' # ''route'' # ''add'' # args) st2 = (ok, st3)"
  shows "clean fw gw4 gw6 (fst st3)" "restores sys (if ok then cl1 @ [[''ip'' # ''route'' # ''del'' # args]] else cl1) (fst st3) (fst st1)"
proof -
  have fc: "fails_clean sys" and u4: "undone_by sys (''ip'' # ''route'' # ''add'' # args) (''ip'' # ''route'' # ''del'' # args)" for args
    using tools by (simp_all add: linux_tools_def)
  have "clean fw gw4 gw6 (fst st2)" by (rule absent_add_bypass [OF tools assms(2) _ b]) simp
  then show "clean fw gw4 gw6 (fst st3)" using absent_run [OF tools] d by (metis snd_conv)
  have "restores sys cl1 (fst st2) (fst st1)" by (rule add_bypass_restores [OF fc _ _ b]) (simp_all add: u4)
  from restores_run [OF this fc u4 d] show "restores sys (if ok then cl1 @ [[''ip'' # ''route'' # ''del'' # args]] else cl1) (fst st3) (fst st1)" .
qed

text \<open>The whole of \<open>Apply\<close> on Linux.\<close>

lemma Apply_linux_undone:
  assumes tools: "linux_tools sys fw" and start: "rules_absent fw (fst st)"
    and res: "Apply_linux sys tunName proxyAddr st = (r, st')"
  shows "case r of Inl e \<Rightarrow> fst st' = fst st | Inr cleanup \<Rightarrow> world_after sys cleanup (fst st') = fst st"
proof -
  define st1 where "st1 = snd (defaultGateway4 sys st)"
  have w1: "fst st1 = fst st" using defaultGateway_reads(1) [OF tools, of st] by (simp add: st1_def)
  show ?thesis
  proof (cases "fst (defaultGateway4 sys st)")
    case None
    with res w1 show ?thesis by (auto simp: Apply_linux_def st1_def Let_def split: prod.splits)
  next
    case (Some g)
    then obtain gw dev where dg: "defaultGateway4 sys st = (Some (gw, dev), st1)"
      by (cases g) (simp add: st1_def prod_eq_iff)
    define gw4 gw6 where "gw4 = Addr_String GatewayIPv4" and "gw6 = Addr_String GatewayIPv6"
    define ips where "ips = resolveProxyHost sys st1 proxyAddr"
    obtain cl1 st2 where b: "add_bypass sys (\<lambda>ip. [''ip'', ''route'', ''add'', ip @ ''/32'', ''via'', gw, ''dev'', dev])
        (\<lambda>ip. [''ip'', ''route'', ''del'', ip @ ''/32'', ''via'', gw, ''dev'', dev]) ips ([], st1) = (cl1, st2)"
      by (rule prod.exhaust)
    obtain ok st3 where d: "run sys [''ip'', ''route'', ''add'', ''default'', ''via'', gw4, ''dev'', tunName] st2 = (ok, st3)"
      by (rule prod.exhaust)
    define s7 where "s7 = linux_ipv6_dns sys tunName gw4 gw6 ips
      (cl1 @ [[[''ip'', ''route'', ''del'', ''default'', ''via'', gw4, ''dev'', tunName]]], st3)"
    have eq: "(r, st') = (if \<not> ok then (Inl AddDefaultIPv4, run_each sys (revert_cmds cl1) st3)
        else (Inr (revert_cmds (fst s7)), snd s7))"
      unfolding res [symmetric] Apply_linux_def Let_def gw4_def [symmetric] gw6_def [symmetric] dg prod.case option.case
        ips_def [symmetric] b d by (simp add: s7_def [symmetric] case_prod_beta)
    note r3 = linux_ipv4_restores [OF tools _ b d, unfolded w1, OF start [unfolded rules_absent_def, folded gw4_def gw6_def]]
    have "\<forall>ip \<in> set ips. \<exists>a. ip = appendTo4 a" by (simp add: ips_def resolveProxyHost_v4)
    then have "restores sys (fst s7) (fst (snd s7)) (fst st)" if ok
      unfolding s7_def by (intro linux_ipv6_dns_restores [OF tools]) (use r3 that in simp_all)
    with eq r3 show ?thesis by (cases ok) (simp_all add: run_each_world restores_revert)
  qed
qed

text \<open>The log of the loop over the proxy's addresses, and of a best-effort step.\<close>

lemma add_bypass_trace:
  assumes "add_bypass sys add del ips (cl, st) = (cl', st')"
  shows "\<exists>oks. length oks = length ips \<and> snd st' = snd st @ zip (map add ips) oks \<and>
    cl' = cl @ map (\<lambda>(ip, ok). [del ip]) (filter snd (zip ips oks))"
  using assms
proof (induction ips arbitrary: cl st)
  case (Cons ip ips)
  obtain ok st1 where r: "run sys (add ip) st = (ok, st1)" by (rule prod.exhaust)
  then have log: "snd st1 = snd st @ [(add ip, ok)]" using run_log [of sys "add ip" st] by simp
  have "add_bypass sys add del ips (if ok then cl @ [[del ip]] else cl, st1) = (cl', st')"
    using Cons.prems r by (simp split: if_splits)
  from Cons.IH [OF this] obtain oks where "length oks = length ips" "snd st' = snd st1 @ zip (map add ips) oks"
      "cl' = (if ok then cl @ [[del ip]] else cl) @ map (\<lambda>(ip, ok). [del ip]) (filter snd (zip ips oks))"
    by blast
  then show ?case by (intro exI [of _ "ok # oks"]) (auto simp: log)
qed simp

lemma try_add_trace:
  "\<exists>ok. snd (snd (try_add sys add del s)) = snd (snd s) @ [(add, ok)] \<and>
     fst (try_add sys add del s) = fst s @ (if ok then [[del]] else [])"
  using run_log [of sys add "snd s"] by (auto simp: try_add_def case_prod_beta Let_def)

section \<open>The contract of an installer\<close>

text \<open>What a driver relies on: an installer only runs commands, so that the log grows, and its cleanup is a
  list of commands. A driver that runs the cleanup later has a log with the installation, then whatever
  came between, then the cleanup.\<close>

locale route_installer =
  fixes installer :: "'w sys \<Rightarrow> string \<Rightarrow> string \<Rightarrow> 'w st \<Rightarrow> (route_error + cmd list) \<times> 'w st"
  assumes log_grows: "\<exists>l. snd (snd (installer sys tunName proxyAddr st)) = snd st @ l"
begin

lemma install_then_cleanup:
  assumes "installer sys tunName proxyAddr st = (Inr cleanup, st1)" "snd st2 = snd st1 @ m"
  shows "\<exists>l n. snd (run_each sys cleanup st2) = snd st @ l @ m @ n \<and> map fst n = cleanup"
proof -
  obtain l where l: "snd st1 = snd st @ l" using log_grows [of sys tunName proxyAddr st] assms(1) by auto
  have "\<exists>n. snd (run_each sys cs s) = snd s @ n \<and> map fst n = cs" for cs s
  proof (induction cs arbitrary: s)
    case (Cons c cs)
    obtain n where "snd (run_each sys cs (snd (run sys c s))) = snd (snd (run sys c s)) @ n" "map fst n = cs"
      using Cons by blast
    then show ?case by (intro exI [of _ "(c, fst (run sys c s)) # n"]) (simp add: run_log)
  qed simp
  then show ?thesis using l assms(2) by (metis append.assoc)
qed

end

text \<open>Growth of the log, for the steps of the installers.\<close>

lemma prefix_grows: "prefix (snd st) (snd st') \<longleftrightarrow> (\<exists>l. snd st' = snd st @ l)"
  by (auto simp: prefix_def)

lemma run_prefix: "prefix (snd st) (snd (snd (run sys c st)))"
  by (simp add: run_log)

lemma exec_Output_prefix: "prefix (snd st) (snd (snd (exec_Output sys c st)))"
  using exec_Output_log [of sys c st] by auto

lemma run_each_prefix: "prefix (snd st) (snd (run_each sys cs st))"
proof (induction cs arbitrary: st)
  case (Cons c cs)
  show ?case using prefix_order.trans [OF run_prefix [of st sys c] Cons [of "snd (run sys c st)"]] by simp
qed simp

lemma run_until_error_prefix: "prefix (snd st) (snd (snd (run_until_error sys cs st)))"
proof (induction cs arbitrary: st)
  case (Cons c cs)
  then show ?case
    using prefix_order.trans [OF run_prefix [of st sys c] Cons [of "snd (run sys c st)"]] run_prefix [of st sys c]
    by (auto simp: case_prod_beta Let_def)
qed simp

lemma add_bypass_prefix: "prefix (snd st) (snd (snd (add_bypass sys add del ips (cl, st))))"
  using add_bypass_trace [of sys add del ips cl st] by (cases "add_bypass sys add del ips (cl, st)") force

lemma try_add_prefix: "prefix (snd (snd s)) (snd (snd (try_add sys add del s)))"
  using try_add_trace [of sys add del s] by auto

lemma redirect_dns_prefix: "prefix (snd (snd s)) (snd (snd (redirect_dns sys gw4 gw6 s)))"
proof -
  have "prefix (snd st) (snd (snd (applyNft sys gw4 gw6 st)))" for st
    using prefix_order.trans [OF run_until_error_prefix [of st sys "nft_cmds gw4 gw6"] run_each_prefix]
      run_until_error_prefix [of st sys "nft_cmds gw4 gw6"]
    by (simp add: applyNft_def case_prod_beta Let_def)
  moreover have "prefix (snd st) (snd (snd (applyIPTables sys gw4 gw6 st)))" for st
    by (simp add: applyIPTables_def case_prod_beta Let_def prefix_order.trans [OF run_until_error_prefix run_each_prefix]
        del: run_until_error.simps run_each.simps)
  ultimately show ?thesis by (simp add: redirect_dns_def case_prod_beta Let_def)
qed

lemma detect_prefix:
  "prefix (snd st) (snd (snd (defaultGateway4 sys st)))" "prefix (snd st) (snd (snd (defaultGateway6 sys st)))"
  "prefix (snd st) (snd (snd (defaultDarwinGateway4 sys st)))" "prefix (snd st) (snd (snd (serviceForInterface sys iface st)))"
  "prefix (snd st) (snd (snd (darwin_currentDNS sys svc st)))" "prefix (snd st) (snd (snd (windows_currentDNS sys name st)))"
proof -
  have out: "snd (case r of (None, st') \<Rightarrow> (x, st') | (Some out, st') \<Rightarrow> (f out, st')) = snd r" for r :: "string option \<times> 'x" and x f
    by (simp split: prod.split option.split)
  show "prefix (snd st) (snd (snd (defaultGateway4 sys st)))" "prefix (snd st) (snd (snd (defaultGateway6 sys st)))"
    "prefix (snd st) (snd (snd (defaultDarwinGateway4 sys st)))" "prefix (snd st) (snd (snd (serviceForInterface sys iface st)))"
    "prefix (snd st) (snd (snd (darwin_currentDNS sys svc st)))" "prefix (snd st) (snd (snd (windows_currentDNS sys name st)))"
    unfolding defaultGateway4_def defaultGateway6_def defaultDarwinGateway4_def serviceForInterface_def
      darwin_currentDNS_def windows_currentDNS_def out by (rule exec_Output_prefix)+
qed

lemma windows_gateway_prefix: "prefix (snd st) (snd (snd (defaultWindowsGateway4 sys st)))"
proof -
  define a where "a = exec_Output sys (powershell gatewayScript) st"
  define b where "b = exec_Output sys [''route'', ''print'', ''0.0.0.0'', ''mask'', ''0.0.0.0''] (snd a)"
  have "prefix (snd st) (snd (snd a))" "prefix (snd (snd a)) (snd (snd b))"
    by (simp_all add: a_def b_def exec_Output_prefix)
  moreover have "snd (defaultWindowsGateway4 sys st) \<in> {snd a, snd b}"
    by (simp add: defaultWindowsGateway4_def a_def [symmetric] b_def [symmetric] case_prod_beta Let_def split: option.split)
  ultimately show ?thesis by (auto intro: prefix_order.trans)
qed

text \<open>Rules that go through an installer step by step: the log of every later state extends \<open>a\<close>.\<close>

lemma grow_let: "(\<And>x. prefix a (snd (snd (f x)))) \<Longrightarrow> prefix a (snd (snd (let x = e in f x)))"
  by simp

lemma grow_if: "prefix a (snd (snd x)) \<Longrightarrow> prefix a (snd (snd y)) \<Longrightarrow> prefix a (snd (snd (if b then x else y)))"
  by simp

lemma grow_step:
  assumes "prefix a (snd st)" "prefix (snd st) (snd (snd r))" "\<And>x st'. prefix a (snd st') \<Longrightarrow> prefix a (snd (snd (f x st')))"
  shows "prefix a (snd (snd (let (x, st') = r in f x st')))"
  using assms(3) [of "snd r" "fst r"] prefix_order.trans [OF assms(1,2)] by (simp add: case_prod_beta)

lemma grow_state:
  assumes "prefix a (snd (snd s))" "prefix (snd (snd s)) (snd (snd r))" "\<And>s'. prefix a (snd (snd s')) \<Longrightarrow> prefix a (snd (snd (f s')))"
  shows "prefix a (snd (snd (let s' = r in f s')))"
  using assms(3) [of r] prefix_order.trans [OF assms(1,2)] by simp

lemma grow_detect:
  assumes "prefix a (snd st)" "prefix (snd st) (snd (snd r))"
    and "\<And>st'. prefix a (snd st') \<Longrightarrow> prefix a (snd (snd (f st')))"
    and "\<And>x st'. prefix a (snd st') \<Longrightarrow> prefix a (snd (snd (g x st')))"
  shows "prefix a (snd (snd (case r of (None, st') \<Rightarrow> f st' | (Some x, st') \<Rightarrow> g x st')))"
  using assms(3) [of "snd r"] assms(4) [of "snd r"] prefix_order.trans [OF assms(1,2)]
  by (cases r) (auto split: option.split)

lemma grow_each: "prefix a (snd st) \<Longrightarrow> prefix a (snd (run_each sys cs st))"
  by (rule prefix_order.trans [OF _ run_each_prefix])

lemma grow_value:
  assumes "prefix a (snd (snd r))" "\<And>s'. prefix a (snd (snd s')) \<Longrightarrow> prefix a (snd (snd (f s')))"
  shows "prefix a (snd (snd (let s' = r in f s')))"
  using assms by simp

lemma grow_value_st:
  assumes "prefix a (snd r)" "\<And>s'. prefix a (snd s') \<Longrightarrow> prefix a (snd (snd (f s')))"
  shows "prefix a (snd (snd (let s' = r in f s')))"
  using assms by simp

lemmas grow_run = grow_step [OF _ run_prefix]
lemmas grow_bypass = grow_step [OF _ add_bypass_prefix]
lemmas grow_try = prefix_order.trans [OF _ try_add_prefix]

lemma linux_ipv6_dns_prefix: "prefix (snd (snd s)) (snd (snd (linux_ipv6_dns sys t gw4 gw6 ips s)))"
  unfolding linux_ipv6_dns_def
  apply (rule grow_step [OF prefix_order.refl detect_prefix(2)])
  apply (rule grow_value_st)
   apply (auto split: option.split intro: grow_each) []
  apply (rule grow_value)
   apply (rule grow_try, simp)
  apply (rule prefix_order.trans [OF _ redirect_dns_prefix], assumption)
  done

lemma grow_prod: "(\<And>x y. prefix a (snd (snd (f x y)))) \<Longrightarrow> prefix a (snd (snd (case q of (x, y) \<Rightarrow> f x y)))"
  by (cases q) simp

lemma detectNetworkService_prefix: "prefix (snd st) (snd (snd (detectNetworkService sys st)))"
  unfolding detectNetworkService_def
  apply (rule grow_detect [OF prefix_order.refl exec_Output_prefix])
   apply simp
  apply (rule grow_let, rule grow_if)
   apply simp
  apply (rule grow_detect [OF _ detect_prefix(4)], assumption)
   apply simp
  apply (rule grow_step [OF _ detect_prefix(5)], assumption, simp)
  done

lemma darwin_set_dns_prefix: "prefix (snd (snd s)) (snd (snd (darwin_set_dns sys gw4 s)))"
  unfolding darwin_set_dns_def
  by (rule grow_step [OF prefix_order.refl detectNetworkService_prefix]) (auto split: option.split intro: grow_try)

lemma windows_set_dns_prefix: "prefix (snd (snd s)) (snd (snd (windows_set_dns sys t gw4 s)))"
  unfolding windows_set_dns_def
  by (rule grow_step [OF prefix_order.refl detect_prefix(6)], rule grow_try) simp

lemma Apply_linux_prefix: "prefix (snd st) (snd (snd (Apply_linux sys t p st)))"
  unfolding Apply_linux_def
  apply (rule grow_let, rule grow_let, rule grow_detect [OF prefix_order.refl detect_prefix(1)])
   apply simp
  apply (rule grow_prod)
  apply (rule grow_let, rule grow_bypass, assumption, rule grow_run, assumption, rule grow_if)
   apply (simp add: grow_each)
  apply (rule grow_let, rule grow_step [OF _ linux_ipv6_dns_prefix])
   apply simp_all
  done

lemma Apply_darwin_prefix: "prefix (snd st) (snd (snd (Apply_darwin sys t p st)))"
  unfolding Apply_darwin_def
  apply (rule grow_let, rule grow_let, rule grow_detect [OF prefix_order.refl detect_prefix(3)])
   apply simp
  apply (rule grow_let, rule grow_bypass, assumption, rule grow_run, assumption, rule grow_if)
   apply simp
  apply (rule grow_let, rule grow_run, assumption, rule grow_if)
   apply (simp add: grow_each)
  apply (rule grow_let, rule grow_value, rule grow_try, simp, rule grow_value, rule grow_try, assumption)
  apply (rule grow_value, rule prefix_order.trans [OF _ darwin_set_dns_prefix], assumption, simp)
  done

lemma Apply_windows_prefix: "prefix (snd st) (snd (snd (Apply_windows sys t p st)))"
  unfolding Apply_windows_def
  apply (rule grow_let, rule grow_let, rule grow_detect [OF prefix_order.refl windows_gateway_prefix])
   apply simp
  apply (rule grow_let, rule grow_bypass, assumption, rule grow_value, rule grow_try, simp, rule grow_run, assumption, rule grow_if)
   apply simp
  apply (rule grow_let, rule grow_run, assumption, rule grow_if)
   apply (simp add: grow_each)
  apply (rule grow_let, rule grow_value, rule grow_try, simp, rule grow_value, rule grow_try, assumption)
  apply (rule grow_value, rule prefix_order.trans [OF _ windows_set_dns_prefix], assumption, simp)
  done

interpretation linux_routes: route_installer Apply_linux
  by unfold_locales (rule Apply_linux_prefix [unfolded prefix_grows])

interpretation darwin_routes: route_installer Apply_darwin
  by unfold_locales (rule Apply_darwin_prefix [unfolded prefix_grows])

interpretation windows_routes: route_installer Apply_windows
  by unfold_locales (rule Apply_windows_prefix [unfolded prefix_grows])

interpretation other_routes: route_installer Apply_other
  by unfold_locales (simp add: Apply_other_def)

section \<open>Darwin: the cleanup restores the world\<close>

text \<open>Rules that go through an installer step by step: the cleanups registered so far take the world back.\<close>

definition keeps :: "'w sys \<Rightarrow> ('w \<Rightarrow> bool) \<Rightarrow> cmd \<Rightarrow> bool" where
  "keeps sys I c \<longleftrightarrow> (\<forall>w. I w \<longrightarrow> I (snd (sys_exec sys c w)))"

lemma keeps_bypass:
  assumes "\<And>ip. keeps sys I (add ip)" "I (fst st)" "add_bypass sys add del ips (cl, st) = (cl', st')"
  shows "I (fst st')"
  using assms(2,3)
proof (induction ips arbitrary: cl st)
  case (Cons ip ips)
  obtain ok st1 where r: "run sys (add ip) st = (ok, st1)" by (cases "run sys (add ip) st")
  have "I (fst st1)" using assms(1) [of ip] Cons.prems(1) run_world [of sys "add ip" st] r by (simp add: keeps_def)
  with Cons r show ?case by (auto split: if_splits)
qed simp

lemma undo_bypass:
  assumes "restores sys cl (fst st) w0" "I (fst st)" "fails_clean sys" "\<And>ip. undone_by sys (add ip) (del ip)" "\<And>ip. keeps sys I (add ip)"
    and "\<And>cl' st'. restores sys cl' (fst st') w0 \<Longrightarrow> I (fst st') \<Longrightarrow> Q (f cl' st')"
  shows "Q (let (cl', st') = add_bypass sys add del ips (cl, st) in f cl' st')"
proof -
  obtain cl' st' where b: "add_bypass sys add del ips (cl, st) = (cl', st')" by (rule prod.exhaust)
  show ?thesis using assms(6) [OF add_bypass_restores [OF assms(3,4,1) b] keeps_bypass [OF assms(5,2) b]] by (simp add: b)
qed

lemma undo_run:
  assumes "restores sys cl (fst st) w0" "I (fst st)" "fails_clean sys" "undone_by sys c d" "keeps sys I c"
    and "\<And>st'. restores sys cl (fst st') w0 \<Longrightarrow> I (fst st') \<Longrightarrow> Q (f False st')"
    and "\<And>st'. restores sys (cl @ [[d]]) (fst st') w0 \<Longrightarrow> I (fst st') \<Longrightarrow> Q (f True st')"
  shows "Q (let (ok, st') = run sys c st in f ok st')"
proof -
  obtain ok st' where r: "run sys c st = (ok, st')" by (rule prod.exhaust)
  have "I (fst st')" using assms(2,5) run_world [of sys c st] r by (simp add: keeps_def)
  then show ?thesis using restores_run [OF assms(1,3,4) r] assms(6,7) by (cases ok) (simp_all add: r)
qed

lemma undo_try:
  assumes "restores sys (fst s) (fst (snd s)) w0" "I (fst (snd s))" "fails_clean sys" "undone_by sys c d" "keeps sys I c"
    and "\<And>s'. restores sys (fst s') (fst (snd s')) w0 \<Longrightarrow> I (fst (snd s')) \<Longrightarrow> Q (f s')"
  shows "Q (let s' = try_add sys c d s in f s')"
proof -
  have "I (fst (snd (try_add sys c d s)))"
    using assms(2,5) run_world [of sys c "snd s"] by (simp add: keeps_def try_add_def case_prod_beta Let_def)
  then show ?thesis using assms(6) [OF try_add_restores [OF assms(3,4,1)]] by simp
qed

lemma darwin_reads:
  assumes "darwin_tools sys rs"
  shows "fst (snd (defaultDarwinGateway4 sys st)) = fst st" "fst (snd (serviceForInterface sys iface st)) = fst st"
    "fst (snd (exec_Output sys [''route'', ''get'', ''8.8.8.8''] st)) = fst st" "fst (snd (darwin_currentDNS sys svc st)) = fst st"
  using reads_only_Output [of sys "[''route'', ''get'', ''8.8.8.8'']" st]
    reads_only_Output [of sys "[''networksetup'', ''-listallhardwareports'']" st]
    reads_only_Output [of sys "[''networksetup'', ''-getdnsservers'', svc]" st] assms
  by (auto simp: darwin_tools_def defaultDarwinGateway4_def serviceForInterface_def darwin_currentDNS_def split: prod.split option.split)

lemma darwin_currentDNS_servers:
  assumes "darwin_tools sys rs" "rs_service rs svc (fst st)" "list_all server_text (rs_servers rs svc (fst st))" "newline \<notin> set svc"
  shows "fst (darwin_currentDNS sys svc st) = rs_servers rs svc (fst st)"
proof -
  have "\<forall>svc w. rs_service rs svc w \<longrightarrow>
      fst (sys_exec sys [''networksetup'', ''-getdnsservers'', svc] w) = (True, servers_text svc (rs_servers rs svc w))"
    using assms(1) unfolding darwin_tools_def by (elim conjE)
  note this [rule_format, OF assms(2)]
  then show ?thesis
    using read_servers [OF assms(3,4)] by (cases "sys_exec sys [''networksetup'', ''-getdnsservers'', svc] (fst st)")
      (auto simp: darwin_currentDNS_def exec_Output_def)
qed

lemma detectNetworkService_world:
  assumes "darwin_tools sys rs"
  shows "fst (snd (detectNetworkService sys st)) = fst st"
    "fst (detectNetworkService sys st) = Some (svc, old) \<Longrightarrow> newline \<notin> set svc \<and> (\<exists>l. old = fst (darwin_currentDNS sys svc (fst st, l)))"
proof -
  obtain o1 st1 where e: "exec_Output sys [''route'', ''get'', ''8.8.8.8''] st = (o1, st1)" by (rule prod.exhaust)
  have w1: "fst st1 = fst st" using darwin_reads(3) [OF assms, of st] e by simp
  have w2: "y = fst st" if "serviceForInterface sys i st1 = (x, y, z)" for i x y z
    using darwin_reads(2) [OF assms, of i st1] w1 that by simp
  have w3: "fst (snd (serviceForInterface sys i st1)) = fst st" for i using darwin_reads(2) [OF assms, of i st1] w1 by simp
  have w4: "newline \<notin> set s" if "serviceForInterface sys i st1 = (Some s, y)" for i s y
    using serviceForInterface_name [of sys i st1 s] that by simp
  show "fst (snd (detectNetworkService sys st)) = fst st"
    using w1 w2 w3 darwin_reads(4) [OF assms]
    by (auto simp: detectNetworkService_def e case_prod_beta Let_def split: option.splits prod.splits if_splits)
  show "fst (detectNetworkService sys st) = Some (svc, old) \<Longrightarrow> newline \<notin> set svc \<and> (\<exists>l. old = fst (darwin_currentDNS sys svc (fst st, l)))"
    using w2 w4 by (auto simp: detectNetworkService_def e case_prod_beta Let_def split: option.splits prod.splits if_splits)
qed

lemma set_servers:
  assumes "darwin_tools sys rs" "args \<noteq> []" "args = [''empty''] \<or> list_all server_text args"
  shows "if rs_service rs svc w
    then snd (sys_exec sys (''networksetup'' # ''-setdnsservers'' # svc # args) w) = rs_setServers rs svc (if args = [''empty''] then [] else args) w
    else \<not> fst (fst (sys_exec sys (''networksetup'' # ''-setdnsservers'' # svc # args) w))"
proof -
  have "\<forall>svc args w. args \<noteq> [] \<longrightarrow> args = [''empty''] \<or> list_all server_text args \<longrightarrow>
        (if rs_service rs svc w
         then snd (sys_exec sys (''networksetup'' # ''-setdnsservers'' # svc # args) w) =
                rs_setServers rs svc (if args = [''empty''] then [] else args) w
         else \<not> fst (fst (sys_exec sys (''networksetup'' # ''-setdnsservers'' # svc # args) w)))"
    using assms(1) unfolding darwin_tools_def by (elim conjE)
  from this [rule_format, OF assms(2,3)] show ?thesis .
qed

text \<open>Setting the servers of a service and then those that were there before.\<close>

lemma servers_put_back:
  assumes tools: "darwin_tools sys rs" and gw: "server_text gw" and old: "list_all server_text old" "old = rs_servers rs svc w"
    and svc: "rs_service rs svc w"
  shows "snd (sys_exec sys ([''networksetup'', ''-setdnsservers'', svc] @ (if old = [] then [''empty''] else old))
    (snd (sys_exec sys [''networksetup'', ''-setdnsservers'', svc, gw] w))) = w"
proof -
  have laws: "views (rs_servers rs) (rs_setServers rs)" "rs_service rs svc (rs_setServers rs svc v w)" for v
    using tools svc by (simp_all add: darwin_tools_def)
  have "gw \<noteq> ''empty''" using gw by (simp add: server_text_def)
  then have w1: "snd (sys_exec sys [''networksetup'', ''-setdnsservers'', svc, gw] w) = rs_setServers rs svc [gw] w"
    using set_servers [OF tools, of "[gw]" svc w] gw svc by simp
  have "old \<noteq> [''empty'']" using old(1) by (auto simp: server_text_def)
  then have "snd (sys_exec sys (''networksetup'' # ''-setdnsservers'' # svc # (if old = [] then [''empty''] else old)) (rs_setServers rs svc [gw] w)) =
      rs_setServers rs svc old (rs_setServers rs svc [gw] w)"
    using set_servers [OF tools, of "if old = [] then [''empty''] else old" svc "rs_setServers rs svc [gw] w"] laws(2) old(1) by auto
  then show ?thesis unfolding w1 by (simp add: viewsD [OF laws(1)] old(2))
qed

lemma darwin_set_dns_restores:
  assumes tools: "darwin_tools sys rs" and "restores sys (fst s) (fst (snd s)) w0" "servers_ok rs (fst (snd s))" and gw: "server_text gw4"
  shows "restores sys (fst (darwin_set_dns sys gw4 s)) (fst (snd (darwin_set_dns sys gw4 s))) w0"
proof -
  obtain det st7 where d: "detectNetworkService sys (snd s) = (det, st7)" by (rule prod.exhaust)
  have w7: "fst st7 = fst (snd s)" using detectNetworkService_world(1) [OF tools, of "snd s"] d by simp
  show ?thesis
  proof (cases det)
    case None
    then show ?thesis using assms(2) w7 by (simp add: darwin_set_dns_def d)
  next
    case (Some p)
    then obtain svc old where p: "det = Some (svc, old)" by (cases p) simp
    obtain l where old: "newline \<notin> set svc" "old = fst (darwin_currentDNS sys svc (fst st7, l))"
      using detectNetworkService_world(2) [OF tools, of "snd s" svc old] d p w7 by auto
    let ?c = "[''networksetup'', ''-setdnsservers'', svc, gw4]"
    let ?d = "[''networksetup'', ''-setdnsservers'', svc] @ (if old = [] then [''empty''] else old)"
    obtain ok st8 where r: "run sys ?c st7 = (ok, st8)" by (rule prod.exhaust)
    have w8: "fst st8 = snd (sys_exec sys ?c (fst st7))" "ok = fst (fst (sys_exec sys ?c (fst st7)))"
      using run_world [of sys ?c st7] run_ok [of sys ?c st7] r by auto
    have "if ok then snd (sys_exec sys ?d (fst st8)) = fst st7 else fst st8 = fst st7"
    proof (cases "rs_service rs svc (fst st7)")
      case True
      have srv: "list_all server_text (rs_servers rs svc (fst st7))" using assms(3) w7 by (simp add: servers_ok_def)
      then have "old = rs_servers rs svc (fst st7)"
        using darwin_currentDNS_servers [OF tools, of svc "(fst st7, l)"] True old by simp
      from servers_put_back [OF tools gw _ this True] srv this show ?thesis
        using tools unfolding w8 by (simp add: darwin_tools_def fails_clean_def)
    next
      case False
      then show ?thesis using set_servers [OF tools, of "[gw4]" svc "fst st7"] gw tools unfolding w8 by (simp add: darwin_tools_def fails_clean_def)
    qed
    then have "restores sys (if ok then fst s @ [[?d]] else fst s) (fst st8) w0"
      using assms(2) w7 by (auto simp: restores_push)
    then show ?thesis by (simp add: darwin_set_dns_def d p try_add_def r split: if_splits)
  qed
qed

lemma gateway4_text: "Addr_String GatewayIPv4 = ''198.18.0.1''"
  by (simp add: go_defs Itoa.simps)

text \<open>The whole of \<open>Apply\<close> on Darwin.\<close>

lemma Apply_darwin_undone:
  assumes tools: "darwin_tools sys rs" and start: "servers_ok rs (fst st)"
    and res: "Apply_darwin sys tunName proxyAddr st = (r, st')"
  shows "case r of Inl e \<Rightarrow> (if e = AddDefaultIPv4 then True else fst st' = fst st)
    | Inr cleanup \<Rightarrow> world_after sys cleanup (fst st') = fst st"
proof -
  define Q :: "(route_error + cmd list) \<times> 'a st \<Rightarrow> bool" where "Q = (\<lambda>(r, st').
    case r of Inl e \<Rightarrow> (if e = AddDefaultIPv4 then True else fst st' = fst st) | Inr cleanup \<Rightarrow> world_after sys cleanup (fst st') = fst st)"
  have fc: "fails_clean sys" and u: "undone_by sys (''route'' # ''add'' # args) (''route'' # ''delete'' # args)" for args
    using tools by (simp_all add: darwin_tools_def)
  have k: "keeps sys (servers_ok rs) (''route'' # args)" for args
    using tools by (simp add: keeps_def servers_ok_def darwin_tools_def)
  have gw: "server_text ''198.18.0.1''" by (simp add: server_text_def is_space_def)
  obtain o1 st1 where g: "defaultDarwinGateway4 sys st = (o1, st1)" by (rule prod.exhaust)
  have w1: "fst st1 = fst st" using darwin_reads(1) [OF tools, of st] g by simp
  have "Q (Apply_darwin sys tunName proxyAddr st)"
  proof (cases o1)
    case None
    then show ?thesis by (simp add: Apply_darwin_def g Q_def w1 Let_def)
  next
    case (Some gw)
    show ?thesis
      unfolding Apply_darwin_def g Some prod.case option.case Let_def [of "Addr_String _"] Let_def [of "resolveProxyHost _ _ _"]
      apply (rule undo_bypass [of _ _ _ "fst st" "servers_ok rs"], simp add: w1, simp add: w1 start, rule fc, rule u, rule k)
      apply (rule undo_run [where I = "servers_ok rs"], assumption, assumption, rule fc, rule u, rule k)
       apply (simp add: Q_def)
      apply (simp only: not_True_eq_False if_False Let_def [of "_ @ _"])
      apply (rule undo_run [where I = "servers_ok rs"], assumption, assumption, rule fc, rule u, rule k)
       apply (simp add: Q_def run_each_world restores_revert)
      apply (simp only: not_True_eq_False if_False)
      apply (rule undo_try [where I = "servers_ok rs"], simp, simp, rule fc, rule u, rule k)
      apply (rule undo_try [where I = "servers_ok rs"], assumption, assumption, rule fc, rule u, rule k)
      apply (simp add: Q_def restores_revert Let_def darwin_set_dns_restores [OF tools _ _ gw])
      done
  qed
  then show ?thesis by (simp add: res Q_def)
qed

section \<open>Platforms whose routes are taken back\<close>

text \<open>The contract the drivers rely on: under the documented behaviour of the tools of the platform, the cleanup
  takes the world back to what it was before \<open>Apply\<close>, and an error leaves it as it was, unless the error is
  one of those that \<open>leaky\<close> names.\<close>

locale platform_undo =
  fixes os :: GOOS and tools :: "'w sys \<Rightarrow> ('w \<Rightarrow> bool) \<Rightarrow> bool" and leaky :: "route_error \<Rightarrow> bool"
  assumes apply_undone: "tools sys ready \<Longrightarrow> ready (fst st) \<Longrightarrow> Apply os sys tunName proxyAddr st = (r, st') \<Longrightarrow>
      case r of Inl e \<Rightarrow> (if leaky e then True else fst st' = fst st) | Inr cleanup \<Rightarrow> world_after sys cleanup (fst st') = fst st"
begin

text \<open>Installing the routes and running the cleanup at once, as the drivers do when the stack cannot be built.\<close>

lemma apply_then_cleanup:
  assumes "tools sys ready" "ready (fst st)" "Apply os sys tunName proxyAddr st = (Inr cleanup, st')"
  shows "fst (run_each sys cleanup (fst st', l)) = fst st"
  using apply_undone [OF assms] by (simp add: run_each_world)

end

definition linux_ready :: "'w sys \<Rightarrow> ('w \<Rightarrow> bool) \<Rightarrow> bool" where
  "linux_ready sys ready \<longleftrightarrow> (\<exists>fw. linux_tools sys fw \<and> ready = rules_absent fw)"

definition darwin_ready :: "'w sys \<Rightarrow> ('w \<Rightarrow> bool) \<Rightarrow> bool" where
  "darwin_ready sys ready \<longleftrightarrow> (\<exists>rs. darwin_tools sys rs \<and> ready = servers_ok rs)"

interpretation linux_undo: platform_undo Linux linux_ready "\<lambda>_. False"
proof
  fix sys :: "'w sys" and ready st tunName proxyAddr r st'
  assume "linux_ready sys ready" "ready (fst st)" "Apply Linux sys tunName proxyAddr st = (r, st')"
  then show "case r of Inl e \<Rightarrow> (if False then True else fst st' = fst st) | Inr cleanup \<Rightarrow> world_after sys cleanup (fst st') = fst st"
    using Apply_linux_undone [of sys _ st tunName proxyAddr r st'] by (auto simp: linux_ready_def)
qed

interpretation darwin_undo: platform_undo Darwin darwin_ready "\<lambda>e. e = AddDefaultIPv4"
proof
  fix sys :: "'w sys" and ready st tunName proxyAddr r st'
  assume "darwin_ready sys ready" "ready (fst st)" "Apply Darwin sys tunName proxyAddr st = (r, st')"
  then show "case r of Inl e \<Rightarrow> (if e = AddDefaultIPv4 then True else fst st' = fst st) | Inr cleanup \<Rightarrow> world_after sys cleanup (fst st') = fst st"
    using Apply_darwin_undone [of sys _ st tunName proxyAddr r st'] unfolding darwin_ready_def Apply.simps by blast
qed

text \<open>C13. On Linux \<open>Apply\<close> and its cleanup are inverse: when it succeeds, running the cleanup commands takes the
  world back to what it was before, routes, nft tables and iptables rules; when it fails, the world is
  already as it was. The hypotheses are what the manuals say of single commands of the tools, and that
  the tables and rules of the program do not exist when it starts.\<close>

theorem linux_apply_reverts:
  assumes "linux_tools sys fw" "rules_absent fw (fst st)" "Apply_linux sys tunName proxyAddr st = (r, st')"
  shows "case r of Inl e \<Rightarrow> fst st' = fst st | Inr cleanup \<Rightarrow> world_after sys cleanup (fst st') = fst st"
  using linux_undo.apply_undone [of sys "rules_absent fw" st tunName proxyAddr r st'] assms
  by (cases r) (auto simp: linux_ready_def)

text \<open>On Darwin the cleanup restores the world: when \<open>Apply\<close> succeeds, running its cleanup commands takes the
  world back, and so does the error path of the second half of the default route and a missing gateway; the
  error path of the first half is the subject of the next property.\<close>

theorem darwin_apply_reverts:
  assumes "darwin_tools sys rs" "servers_ok rs (fst st)" "Apply_darwin sys tunName proxyAddr st = (r, st')"
  shows "case r of Inl e \<Rightarrow> (if e = AddDefaultIPv4 then True else fst st' = fst st)
    | Inr cleanup \<Rightarrow> world_after sys cleanup (fst st') = fst st"
  using assms by (rule Apply_darwin_undone)

section \<open>Pairs of commands and their cleanups\<close>

text \<open>The steps done so far, as pairs of a command and the command that removes what it added, with the
  success of each: the log they leave, and the cleanups they register.\<close>

definition undo_list :: "(cmd \<times> cmd) list \<Rightarrow> bool list \<Rightarrow> cleanups" where
  "undo_list P oks = map (\<lambda>((a, d), ok). [d]) (filter snd (zip P oks))"

definition tracked :: "(cmd \<times> bool) list \<Rightarrow> (cmd \<times> cmd) list \<Rightarrow> bool list \<Rightarrow> cleanups \<Rightarrow> 'w st \<Rightarrow> bool" where
  "tracked base P oks cl st \<longleftrightarrow>
     length oks = length P \<and> snd st = base @ zip (map fst P) oks \<and> cl = undo_list P oks"

lemma tracked_bypass:
  assumes "add_bypass sys add del ips ([], st) = (cl, st')"
  shows "\<exists>oks. tracked (snd st) (map (\<lambda>ip. (add ip, del ip)) ips) oks cl st'"
proof -
  obtain oks where o: "length oks = length ips" "snd st' = snd st @ zip (map add ips) oks"
      "cl = map (\<lambda>(ip, ok). [del ip]) (filter snd (zip ips oks))"
    using add_bypass_trace [OF assms] by auto
  have "map (\<lambda>((a, d), ok). [d]) (filter snd (zip (map (\<lambda>ip. (add ip, del ip)) ips) oks)) =
      map (\<lambda>(ip, ok). [del ip]) (filter snd (zip ips oks))"
    by (simp add: zip_map1 filter_map comp_def case_prod_beta)
  with o show ?thesis by (intro exI [of _ oks]) (simp add: tracked_def undo_list_def comp_def)
qed

lemma tracked_run:
  assumes "tracked base P oks cl st" "run sys a st = (ok, st')"
  shows "tracked base (P @ [(a, d)]) (oks @ [ok]) (if ok then cl @ [[d]] else cl) st'"
  using assms run_log [of sys a st] by (auto simp: tracked_def undo_list_def)

lemma tracked_try:
  assumes "tracked base P oks (fst s) (snd s)"
  shows "\<exists>ok. tracked base (P @ [(a, d)]) (oks @ [ok]) (fst (try_add sys a d s)) (snd (try_add sys a d s))"
proof -
  obtain ok st' where r: "run sys a (snd s) = (ok, st')" by (rule prod.exhaust)
  from tracked_run [OF assms r, of d] show ?thesis by (intro exI [of _ ok]) (simp add: try_add_def r split: if_splits)
qed

lemma concat_undo_list: "concat (rev (undo_list P oks)) = map (\<lambda>((a, d), ok). d) (rev (filter snd (zip P oks)))"
proof -
  have "concat (map (\<lambda>((a, d), ok). [d]) xs) = map (\<lambda>((a, d), ok). d) xs" for xs :: "((cmd \<times> cmd) \<times> bool) list"
    by (induction xs) auto
  then show ?thesis by (simp add: undo_list_def rev_map)
qed

text \<open>The host routes and the first half of the default route on Darwin and Windows.\<close>

definition darwin_hosts :: "string \<Rightarrow> string list \<Rightarrow> (cmd \<times> cmd) list" where
  "darwin_hosts gw ips = map (\<lambda>ip. ([''route'', ''add'', ''-host'', ip, gw], [''route'', ''delete'', ''-host'', ip, gw])) ips"

definition windows_hosts :: "string \<Rightarrow> string list \<Rightarrow> (cmd \<times> cmd) list" where
  "windows_hosts gw ips =
     map (\<lambda>ip. (powershell (buildAddIPv4HostRouteScript ip gw), powershell (removeIPv4HostRouteScript ip gw))) ips @
     [(powershell (buildAddLocalhostRouteScript ''127.0.0.1'' ''127.0.0.0/8'' ''0.0.0.0''), powershell removeLocalhostRouteScript)]"

text \<open>C32. On Darwin, when the first half of the default route cannot be added, \<open>Apply\<close> returns an error and a
  cleanup that does nothing, and the log shows that no command has removed the host routes that were added
  before: they stay behind.\<close>

theorem darwin_first_half_leak:
  assumes "Apply_darwin sys tunName proxyAddr st = (Inl AddDefaultIPv4, st')"
  shows "\<exists>gw st1 oks. defaultDarwinGateway4 sys st = (Some gw, st1) \<and>
    length oks = length (resolveProxyHost sys st1 proxyAddr) \<and>
    snd st' = snd st1 @ zip (map fst (darwin_hosts gw (resolveProxyHost sys st1 proxyAddr))) oks @
      [([''route'', ''add'', ''-net'', ''0.0.0.0/1'', Addr_String GatewayIPv4], False)]"
proof -
  obtain gw st1 where g: "defaultDarwinGateway4 sys st = (Some gw, st1)"
    using assms by (cases "defaultDarwinGateway4 sys st"; cases "fst (defaultDarwinGateway4 sys st)") (auto simp: Apply_darwin_def Let_def)
  define ips where "ips = resolveProxyHost sys st1 proxyAddr"
  obtain cl1 st2 where b: "add_bypass sys (\<lambda>ip. [''route'', ''add'', ''-host'', ip, gw])
      (\<lambda>ip. [''route'', ''delete'', ''-host'', ip, gw]) ips ([], st1) = (cl1, st2)" by (rule prod.exhaust)
  obtain ok1 st3 where r: "run sys [''route'', ''add'', ''-net'', ''0.0.0.0/1'', Addr_String GatewayIPv4] st2 = (ok1, st3)"
    by (rule prod.exhaust)
  have "\<not> ok1 \<and> st' = st3"
    using assms unfolding Apply_darwin_def g prod.case option.case Let_def ips_def [symmetric] b r
    by (auto simp: case_prod_beta split: if_splits)
  moreover obtain oks where "tracked (snd st1) (darwin_hosts gw ips) oks cl1 st2"
    using tracked_bypass [OF b] by (auto simp: darwin_hosts_def)
  ultimately show ?thesis
    using g run_log [of sys "[''route'', ''add'', ''-net'', ''0.0.0.0/1'', Addr_String GatewayIPv4]" st2] r
    by (intro exI [of _ gw] exI [of _ st1] exI [of _ oks]) (auto simp: tracked_def ips_def darwin_hosts_def)
qed

text \<open>The state of \<open>Apply\<close> on Windows once the host routes and the loopback route were tried, and the rest of
  it from there.\<close>

definition windows_rest :: "'w sys \<Rightarrow> string \<Rightarrow> cleanups \<times> 'w st \<Rightarrow> (route_error + cmd list) \<times> 'w st" where
  "windows_rest sys tunName s3 =
     (let gw4 = Addr_String GatewayIPv4; gw6 = Addr_String GatewayIPv6;
          (ok1, st4) = run sys (netsh_add ''ipv4'' ''0.0.0.0/1'' tunName gw4) (snd s3)
      in if \<not> ok1 then (Inl AddDefaultIPv4, st4)
         else
           let cl4 = fst s3 @ [[netsh_del ''ipv4'' ''0.0.0.0/1'' tunName gw4]];
               (ok2, st5) = run sys (netsh_add ''ipv4'' ''128.0.0.0/1'' tunName gw4) st4
           in if \<not> ok2 then (Inl AddDefaultIPv4High, run_each sys (win_revert_cmds cl4) st5)
              else
                let cl5 = cl4 @ [[netsh_del ''ipv4'' ''128.0.0.0/1'' tunName gw4]];
                    s6 = try_add sys (netsh_add ''ipv6'' ''::/1'' tunName gw6) (netsh_del ''ipv6'' ''::/1'' tunName gw6) (cl5, st5);
                    s7 = try_add sys (netsh_add ''ipv6'' ''8000::/1'' tunName gw6) (netsh_del ''ipv6'' ''8000::/1'' tunName gw6) s6;
                    s9 = windows_set_dns sys tunName gw4 s7
                in (Inr (win_revert_cmds (fst s9)), snd s9))"

lemma windows_stages:
  assumes "Apply_windows sys tunName proxyAddr st = (r, st')" "r \<noteq> Inl NoGateway"
  obtains gw st1 oks s3 where "defaultWindowsGateway4 sys st = (Some gw, st1)"
    "tracked (snd st1) (windows_hosts gw (resolveProxyHost sys st1 proxyAddr)) oks (fst s3) (snd s3)"
    "windows_rest sys tunName s3 = (r, st')"
proof -
  obtain gw st1 where g: "defaultWindowsGateway4 sys st = (Some gw, st1)"
    using assms by (cases "defaultWindowsGateway4 sys st"; cases "fst (defaultWindowsGateway4 sys st)") (auto simp: Apply_windows_def Let_def)
  define ips where "ips = resolveProxyHost sys st1 proxyAddr"
  obtain cl1 st2 where b: "add_bypass sys (\<lambda>ip. powershell (buildAddIPv4HostRouteScript ip gw))
      (\<lambda>ip. powershell (removeIPv4HostRouteScript ip gw)) ips ([], st1) = (cl1, st2)" by (rule prod.exhaust)
  define s3 where "s3 = try_add sys (powershell (buildAddLocalhostRouteScript ''127.0.0.1'' ''127.0.0.0/8'' ''0.0.0.0''))
      (powershell removeLocalhostRouteScript) (cl1, st2)"
  have "windows_rest sys tunName s3 = (r, st')"
    using assms(1) unfolding Apply_windows_def windows_rest_def g prod.case option.case ips_def [symmetric] Let_def [of ips]
      b Let_def [of "(cl1, st2)"] Let_def [of "Addr_String _"] s3_def [symmetric] Let_def [of s3] .
  moreover obtain oks where o: "tracked (snd st1) (map (\<lambda>ip. (powershell (buildAddIPv4HostRouteScript ip gw),
      powershell (removeIPv4HostRouteScript ip gw))) ips) oks (fst (cl1, st2)) (snd (cl1, st2))"
    using tracked_bypass [OF b] by auto
  obtain ok where "tracked (snd st1) (windows_hosts gw ips) (oks @ [ok]) (fst s3) (snd s3)"
    using tracked_try [OF o, of "powershell (buildAddLocalhostRouteScript ''127.0.0.1'' ''127.0.0.0/8'' ''0.0.0.0'')"
        "powershell removeLocalhostRouteScript" sys] unfolding s3_def windows_hosts_def by blast
  ultimately show thesis using that g by (simp add: ips_def)
qed

text \<open>On Windows the same error path leaves the host routes and the loopback route behind.\<close>

theorem windows_first_half_leak:
  assumes "Apply_windows sys tunName proxyAddr st = (Inl AddDefaultIPv4, st')"
  shows "\<exists>gw st1 oks. defaultWindowsGateway4 sys st = (Some gw, st1) \<and>
    length oks = length (resolveProxyHost sys st1 proxyAddr) + 1 \<and>
    snd st' = snd st1 @ zip (map fst (windows_hosts gw (resolveProxyHost sys st1 proxyAddr))) oks @
      [(netsh_add ''ipv4'' ''0.0.0.0/1'' tunName (Addr_String GatewayIPv4), False)]"
proof -
  obtain gw st1 oks s3 where g: "defaultWindowsGateway4 sys st = (Some gw, st1)"
    and t: "tracked (snd st1) (windows_hosts gw (resolveProxyHost sys st1 proxyAddr)) oks (fst s3) (snd s3)"
    and w: "windows_rest sys tunName s3 = (Inl AddDefaultIPv4, st')"
    using assms by (rule windows_stages) simp
  let ?c = "netsh_add ''ipv4'' ''0.0.0.0/1'' tunName (Addr_String GatewayIPv4)"
  have "\<not> fst (run sys ?c (snd s3)) \<and> st' = snd (run sys ?c (snd s3))"
    using w unfolding windows_rest_def Let_def case_prod_beta by (simp split: if_splits)
  then have "snd st' = snd (snd s3) @ [(?c, False)]" using run_log [of sys ?c "snd s3"] by simp
  moreover have "length (windows_hosts gw ips) = length ips + 1" for ips by (simp add: windows_hosts_def)
  ultimately show ?thesis using g t unfolding tracked_def by (metis append.assoc)
qed

text \<open>The steps of \<open>Apply\<close> on Windows in order, DNS apart.\<close>

definition windows_routes_pairs :: "string \<Rightarrow> (cmd \<times> cmd) list" where
  "windows_routes_pairs tunName =
     (let gw4 = Addr_String GatewayIPv4; gw6 = Addr_String GatewayIPv6 in
      [(netsh_add ''ipv4'' ''0.0.0.0/1'' tunName gw4, netsh_del ''ipv4'' ''0.0.0.0/1'' tunName gw4),
       (netsh_add ''ipv4'' ''128.0.0.0/1'' tunName gw4, netsh_del ''ipv4'' ''128.0.0.0/1'' tunName gw4),
       (netsh_add ''ipv6'' ''::/1'' tunName gw6, netsh_del ''ipv6'' ''::/1'' tunName gw6),
       (netsh_add ''ipv6'' ''8000::/1'' tunName gw6, netsh_del ''ipv6'' ''8000::/1'' tunName gw6)])"

text \<open>The command that points the name servers of the TUN interface at the gateway, and the one that gives it back
  the server it had, or the automatic setting when it had none.\<close>

definition windows_dns_set :: "string \<Rightarrow> cmd" where
  "windows_dns_set tunName =
     [''netsh'', ''interface'', ''ipv4'', ''set'', ''dnsservers'', ''name='' @ tunName, ''source=static'',
      ''address='' @ Addr_String GatewayIPv4, ''validate=no'']"

definition windows_dns_back :: "string \<Rightarrow> string \<Rightarrow> cmd" where
  "windows_dns_back tunName oldDNS =
     [''netsh'', ''interface'', ''ipv4'', ''set'', ''dnsservers'', ''name='' @ tunName] @
     (if oldDNS = [] then [''source=dhcp''] else [''source=static'', ''address='' @ oldDNS, ''validate=no''])"

lemma windows_set_dns_trace:
  assumes "windows_currentDNS sys tunName (snd s) = (old, st8)"
  shows "\<exists>ok. fst (windows_set_dns sys tunName (Addr_String GatewayIPv4) s) = fst s @ (if ok then [[windows_dns_back tunName old]] else []) \<and>
    snd (snd (windows_set_dns sys tunName (Addr_String GatewayIPv4) s)) = snd st8 @ [(windows_dns_set tunName, ok)]"
proof -
  have eq: "windows_set_dns sys tunName (Addr_String GatewayIPv4) s =
      try_add sys (windows_dns_set tunName) (windows_dns_back tunName old) (fst s, st8)"
    by (simp add: windows_set_dns_def assms windows_dns_set_def windows_dns_back_def)
  obtain ok where "snd (snd (try_add sys (windows_dns_set tunName) (windows_dns_back tunName old) (fst s, st8))) = snd st8 @ [(windows_dns_set tunName, ok)]"
      "fst (try_add sys (windows_dns_set tunName) (windows_dns_back tunName old) (fst s, st8)) = fst s @ (if ok then [[windows_dns_back tunName old]] else [])"
    using try_add_trace [of sys "windows_dns_set tunName" "windows_dns_back tunName old" "(fst s, st8)"] unfolding fst_conv snd_conv by blast
  then show ?thesis unfolding eq by blast
qed

lemma windows_rest_trace:
  fixes sys :: "'w sys"
  assumes t: "tracked base P oks (fst s3) (snd s3)" and w: "windows_rest sys tunName s3 = (Inr cleanup, st')"
  shows "\<exists>oks' cl (st7 :: 'w st) old st8 ok. tracked base (P @ windows_routes_pairs tunName) oks' cl st7 \<and>
    windows_currentDNS sys tunName st7 = (old, st8) \<and> snd st' = snd st8 @ [(windows_dns_set tunName, ok)] \<and>
    cleanup = win_revert_cmds (cl @ (if ok then [[windows_dns_back tunName old]] else []))"
proof -
  define gw4 gw6 where "gw4 = Addr_String GatewayIPv4" and "gw6 = Addr_String GatewayIPv6"
  obtain ok1 st4 where r1: "run sys (netsh_add ''ipv4'' ''0.0.0.0/1'' tunName gw4) (snd s3) = (ok1, st4)" by (rule prod.exhaust)
  obtain ok2 st5 where r2: "run sys (netsh_add ''ipv4'' ''128.0.0.0/1'' tunName gw4) st4 = (ok2, st5)" by (rule prod.exhaust)
  define s5 where "s5 = ((fst s3 @ [[netsh_del ''ipv4'' ''0.0.0.0/1'' tunName gw4]]) @ [[netsh_del ''ipv4'' ''128.0.0.0/1'' tunName gw4]], st5)"
  define s6 where "s6 = try_add sys (netsh_add ''ipv6'' ''::/1'' tunName gw6) (netsh_del ''ipv6'' ''::/1'' tunName gw6) s5"
  define s7 where "s7 = try_add sys (netsh_add ''ipv6'' ''8000::/1'' tunName gw6) (netsh_del ''ipv6'' ''8000::/1'' tunName gw6) s6"
  have ok: "ok1" "ok2" and res: "cleanup = win_revert_cmds (fst (windows_set_dns sys tunName gw4 s7))"
      "st' = snd (windows_set_dns sys tunName gw4 s7)"
    using w unfolding windows_rest_def gw4_def [symmetric] gw6_def [symmetric] Let_def r1 r2 prod.case s7_def s6_def s5_def
    by (auto split: if_splits)
  note t4 = tracked_run [OF t r1, of "netsh_del ''ipv4'' ''0.0.0.0/1'' tunName gw4", unfolded if_P [OF ok(1)]]
  note t5 = tracked_run [OF t4 r2, of "netsh_del ''ipv4'' ''128.0.0.0/1'' tunName gw4", unfolded if_P [OF ok(2)]]
  have "fst s5 = (fst s3 @ [[netsh_del ''ipv4'' ''0.0.0.0/1'' tunName gw4]]) @ [[netsh_del ''ipv4'' ''128.0.0.0/1'' tunName gw4]]" "snd s5 = st5"
    by (simp_all add: s5_def)
  note t5 = t5 [folded this]
  obtain ok3 where t6: "tracked base (((P @ [(netsh_add ''ipv4'' ''0.0.0.0/1'' tunName gw4, netsh_del ''ipv4'' ''0.0.0.0/1'' tunName gw4)]) @
      [(netsh_add ''ipv4'' ''128.0.0.0/1'' tunName gw4, netsh_del ''ipv4'' ''128.0.0.0/1'' tunName gw4)]) @
      [(netsh_add ''ipv6'' ''::/1'' tunName gw6, netsh_del ''ipv6'' ''::/1'' tunName gw6)]) (((oks @ [ok1]) @ [ok2]) @ [ok3]) (fst s6) (snd s6)"
    using tracked_try [OF t5] unfolding s6_def by blast
  obtain ok4 where t7: "tracked base (P @ windows_routes_pairs tunName) ((((oks @ [ok1]) @ [ok2]) @ [ok3]) @ [ok4]) (fst s7) (snd s7)"
    using tracked_try [OF t6, of "netsh_add ''ipv6'' ''8000::/1'' tunName gw6" "netsh_del ''ipv6'' ''8000::/1'' tunName gw6" sys]
    unfolding s7_def windows_routes_pairs_def Let_def gw4_def gw6_def by auto
  obtain old st8 where c: "windows_currentDNS sys tunName (snd s7) = (old, st8)" by (rule prod.exhaust)
  obtain ok where d: "fst (windows_set_dns sys tunName gw4 s7) = fst s7 @ (if ok then [[windows_dns_back tunName old]] else [])"
      "snd (snd (windows_set_dns sys tunName gw4 s7)) = snd st8 @ [(windows_dns_set tunName, ok)]"
    using windows_set_dns_trace [OF c] unfolding gw4_def by blast
  show ?thesis unfolding res by (intro exI conjI, rule t7, rule c, rule d(2), rule arg_cong [OF d(1)])
qed

text \<open>C14. What a successful \<open>Apply\<close> on Windows runs and what its cleanup runs. The commands for the host routes,
  the loopback route and the four halves of the default routes come first, then the name server of the
  interface is read and replaced by the gateway. The cleanup has, for each of these commands that
  succeeded and for no other, the command that removes its route, the last first; before them, when the
  name server was replaced, the command that sets the one that was read, or the automatic setting when
  none was read; and after them the flush of the DNS cache. The loopback script also succeeds when the
  loopback route exists already, and then the cleanup removes that route.\<close>

theorem windows_cleanup_lifo:
  fixes sys :: "'w sys"
  assumes "Apply_windows sys tunName proxyAddr st = (Inr cleanup, st')"
  shows "\<exists>gw st1 oks (st7 :: 'w st) old st8 ok.
    defaultWindowsGateway4 sys st = (Some gw, st1) \<and>
    (let P = windows_hosts gw (resolveProxyHost sys st1 proxyAddr) @ windows_routes_pairs tunName in
     length oks = length P \<and> snd st7 = snd st1 @ zip (map fst P) oks \<and>
     windows_currentDNS sys tunName st7 = (old, st8) \<and> snd st' = snd st8 @ [(windows_dns_set tunName, ok)] \<and>
     cleanup = (if ok then [windows_dns_back tunName old] else []) @
       map (\<lambda>((a, d), ok). d) (rev (filter snd (zip P oks))) @ [[''ipconfig'', ''/flushdns'']])"
proof -
  obtain gw st1 oks s3 where g: "defaultWindowsGateway4 sys st = (Some gw, st1)"
    and t: "tracked (snd st1) (windows_hosts gw (resolveProxyHost sys st1 proxyAddr)) oks (fst s3) (snd s3)"
    and w: "windows_rest sys tunName s3 = (Inr cleanup, st')"
    using assms by (rule windows_stages) simp
  obtain oks' cl old st8 ok and st7 :: "'w st"
    where p: "tracked (snd st1) (windows_hosts gw (resolveProxyHost sys st1 proxyAddr) @ windows_routes_pairs tunName) oks' cl st7"
      "windows_currentDNS sys tunName st7 = (old, st8)" "snd st' = snd st8 @ [(windows_dns_set tunName, ok)]"
      "cleanup = win_revert_cmds (cl @ (if ok then [[windows_dns_back tunName old]] else []))"
    using windows_rest_trace [OF t w] by blast
  have "cleanup = (if ok then [windows_dns_back tunName old] else []) @ concat (rev cl) @ [[''ipconfig'', ''/flushdns'']]"
    unfolding p(4) win_revert_cmds_def by simp
  then show ?thesis
    using g p(1-3) unfolding tracked_def Let_def
    by (intro exI [of _ gw] exI [of _ st1] exI [of _ oks'] exI [of _ st7] exI [of _ old] exI [of _ st8] exI [of _ ok])
      (simp add: concat_undo_list)
qed

section \<open>Witnesses\<close>

text \<open>A Linux system: its world is the routes that were added, the nft tables with their items, and the rules in the
  chains of iptables and ip6tables. It has no IPv6 routes; which firewall programs it has is an argument.\<close>

type_synonym demo_world = "cmd list \<times> (string \<times> string \<Rightarrow> cmd list option) \<times> (string \<Rightarrow> cmd list)"

definition demo_nft_exec :: "cmd \<Rightarrow> (string \<times> string \<Rightarrow> cmd list option) \<Rightarrow> (string \<times> string \<Rightarrow> cmd list option) option" where
  "demo_nft_exec c tables =
     (if length c < 5 then None
      else let k = (c ! 3, c ! 4) in
        if take 3 c = [''nft'', ''add'', ''table''] then
          (if length c = 5 then Some (if tables k = None then tables(k := Some []) else tables) else None)
        else if take 2 c = [''nft'', ''add''] \<and> c ! 2 \<in> {''chain'', ''rule''} then
          (case tables k of None \<Rightarrow> None | Some items \<Rightarrow> Some (tables(k := Some (items @ [c ! 2 # drop 5 c]))))
        else if take 3 c = [''nft'', ''delete'', ''table''] \<and> length c = 5 \<and> tables k \<noteq> None then Some (tables(k := None))
        else None)"

definition demo_iptables_exec :: "cmd \<Rightarrow> (string \<Rightarrow> cmd list) \<Rightarrow> (string \<Rightarrow> cmd list) option" where
  "demo_iptables_exec c rules =
     (if length c < 5 \<or> c ! 0 \<notin> {''iptables'', ''ip6tables''} then None
      else let p = c ! 0; spec = drop 5 c in
        if take 4 (tl c) = [''-t'', ''nat'', ''-I'', ''OUTPUT''] then Some (rules(p := spec # rules p))
        else if take 4 (tl c) = [''-t'', ''nat'', ''-D'', ''OUTPUT''] \<and> spec \<in> set (rules p) then Some (rules(p := remove1 spec (rules p)))
        else None)"

definition demo_linux_exec :: "cmd \<Rightarrow> demo_world \<Rightarrow> (bool \<times> string) \<times> demo_world" where
  "demo_linux_exec c w =
     (case w of (routes, tables, rules) \<Rightarrow>
      if c = [''ip'', ''route'', ''show'', ''default''] then ((True, ''default via 10.0.0.1 dev eth0''), w)
      else if take 2 c = [''ip'', ''addr''] \<or> take 2 c = [''ip'', ''link''] then ((True, []), w)
      else if take 3 c = [''ip'', ''route'', ''add''] then ((True, []), (drop 3 c # routes, tables, rules))
      else if take 3 c = [''ip'', ''route'', ''del''] \<and> drop 3 c \<in> set routes then ((True, []), (remove1 (drop 3 c) routes, tables, rules))
      else (case demo_nft_exec c tables of
              Some tables' \<Rightarrow> ((True, []), (routes, tables', rules))
            | None \<Rightarrow> (case demo_iptables_exec c rules of
                Some rules' \<Rightarrow> ((True, []), (routes, tables, rules'))
              | None \<Rightarrow> ((False, []), w))))"

definition demo_linux :: "string list \<Rightarrow> demo_world sys" where
  "demo_linux progs = \<lparr>sys_exec = demo_linux_exec, sys_lookPath = (\<lambda>_ n. n \<in> set progs), sys_lookupHost = (\<lambda>_ _. Some [''9.9.9.9''])\<rparr>"

definition demo_firewall :: "demo_world firewall" where
  "demo_firewall = \<lparr>fw_table = (\<lambda>k (r, t, c). t k), fw_setTable = (\<lambda>k v (r, t, c). (r, t(k := v), c)),
     fw_chain = (\<lambda>p (r, t, c). c p), fw_setChain = (\<lambda>p v (r, t, c). (r, t, c(p := v)))\<rparr>"

definition demo_start :: demo_world where "demo_start = ([], \<lambda>_. None, \<lambda>_. [])"

lemma demo_views: "views (fw_table demo_firewall) (fw_setTable demo_firewall)" "views (fw_chain demo_firewall) (fw_setChain demo_firewall)"
  by (auto simp: views_def demo_firewall_def fun_upd_twist)

lemma demo_nft_laws: "nft_laws (demo_linux progs) demo_firewall"
  unfolding nft_laws_def
proof (intro conjI demo_views(1) allI impI)
  fix fam t and w :: demo_world
  obtain r ts cs where w: "w = (r, ts, cs)" by (cases w)
  show "snd (sys_exec (demo_linux progs) [''nft'', ''add'', ''table'', fam, t] w) =
      (case fw_table demo_firewall (fam, t) w of None \<Rightarrow> fw_setTable demo_firewall (fam, t) (Some []) w | Some _ \<Rightarrow> w)"
    by (cases "ts (fam, t)") (simp_all add: w demo_linux_def demo_linux_exec_def demo_nft_exec_def demo_firewall_def fun_upd_idem)
  show "case fw_table demo_firewall (fam, t) w of
          None \<Rightarrow> \<not> fst (fst (sys_exec (demo_linux progs) [''nft'', ''delete'', ''table'', fam, t] w))
        | Some _ \<Rightarrow> snd (sys_exec (demo_linux progs) [''nft'', ''delete'', ''table'', fam, t] w) = fw_setTable demo_firewall (fam, t) None w"
    by (cases "ts (fam, t)") (simp_all add: w demo_linux_def demo_linux_exec_def demo_nft_exec_def demo_iptables_exec_def demo_firewall_def)
next
  fix kind fam t item and w :: demo_world
  obtain r ts cs where w: "w = (r, ts, cs)" by (cases w)
  assume "kind \<in> {''chain'', ''rule''}" "fst (fst (sys_exec (demo_linux progs) (''nft'' # ''add'' # kind # fam # t # item) w))"
  then show "\<exists>items. fw_table demo_firewall (fam, t) w = Some items \<and>
      snd (sys_exec (demo_linux progs) (''nft'' # ''add'' # kind # fam # t # item) w) = fw_setTable demo_firewall (fam, t) (Some (items @ [kind # item])) w"
    by (cases "ts (fam, t)") (auto simp: w demo_linux_def demo_linux_exec_def demo_nft_exec_def demo_iptables_exec_def demo_firewall_def)
qed

lemma demo_iptables_laws: "iptables_laws (demo_linux progs) demo_firewall"
  unfolding iptables_laws_def
proof (intro conjI demo_views(2) allI impI)
  fix prog spec and w :: demo_world
  obtain r ts cs where w: "w = (r, ts, cs)" by (cases w)
  assume p: "prog \<in> {''iptables'', ''ip6tables''}"
  show "snd (sys_exec (demo_linux progs) (prog # ''-t'' # ''nat'' # ''-I'' # ''OUTPUT'' # spec) w) =
      fw_setChain demo_firewall prog (spec # fw_chain demo_firewall prog w) w"
    using p by (auto simp: w demo_linux_def demo_linux_exec_def demo_nft_exec_def demo_iptables_exec_def demo_firewall_def)
  show "if spec \<in> set (fw_chain demo_firewall prog w)
      then snd (sys_exec (demo_linux progs) (prog # ''-t'' # ''nat'' # ''-D'' # ''OUTPUT'' # spec) w) =
        fw_setChain demo_firewall prog (remove1 spec (fw_chain demo_firewall prog w)) w
      else \<not> fst (fst (sys_exec (demo_linux progs) (prog # ''-t'' # ''nat'' # ''-D'' # ''OUTPUT'' # spec) w))"
    using p by (auto simp: w demo_linux_def demo_linux_exec_def demo_nft_exec_def demo_iptables_exec_def demo_firewall_def)
qed

lemma demo_ip: "demo_nft_exec (''ip'' # args) t = None" "demo_iptables_exec (''ip'' # args) c = None"
  by (simp_all add: demo_nft_exec_def demo_iptables_exec_def numeral_eq_Suc Let_def)

lemma demo_linux_tools: "linux_tools (demo_linux progs) demo_firewall"
  unfolding linux_tools_def
proof (intro conjI allI demo_nft_laws demo_iptables_laws)
  show "fails_clean (demo_linux progs)"
    by (auto simp: fails_clean_def demo_linux_def demo_linux_exec_def split: option.splits prod.splits)
qed (auto simp: reads_only_def undone_by_def demo_linux_def demo_linux_exec_def demo_firewall_def demo_ip)

lemma demo_rules_absent: "rules_absent demo_firewall demo_start"
  by (simp add: rules_absent_def clean_def demo_firewall_def demo_start_def)

lemma demo_linux_steps:
  "run (demo_linux progs) c st = (let r = demo_linux_exec c (fst st) in (fst (fst r), (snd r, snd st @ [(c, fst (fst r))])))"
  "defaultGateway4 (demo_linux progs) st = (Some (''10.0.0.1'', ''eth0''), (fst st, snd st @ [([''ip'', ''route'', ''show'', ''default''], True)]))"
  "defaultGateway6 (demo_linux progs) st = (None, (fst st, snd st @ [([''ip'', ''-6'', ''route'', ''show'', ''default''], False)]))"
  "resolveProxyHost (demo_linux progs) st ''p:1'' = [''9.9.9.9'']"
  "toolExists (demo_linux progs) st p \<longleftrightarrow> p \<in> set progs"
  by (simp_all add: run_def demo_linux_def demo_linux_exec_def demo_ip defaultGateway4_def defaultGateway6_def exec_Output_def toolExists_def
      resolveProxyHost_def proxy_host_def strip_scheme_def strip_user_def HasPrefix_def List.map_filter_def Itoa.simps
      go_defs Fields.simps is_space_def split: prod.split)

text \<open>Two runs, one on a system with nft and one on a system with iptables only.\<close>

lemma demo_linux_nft:
  "\<exists>cleanup st' items. Apply_linux (demo_linux [''nft'']) ''tun0'' ''p:1'' (demo_start, []) = (Inr cleanup, st') \<and>
     length (fst (fst st')) = 2 \<and> fw_table demo_firewall (''ip'', nftTable4) (fst st') = Some items \<and> length items = 3"
  by (simp add: Apply_linux_def demo_linux_steps demo_linux_exec_def demo_ip demo_nft_exec_def demo_start_def demo_firewall_def
      linux_ipv6_dns_def try_add_def redirect_dns_def applyNft_def nft_cmds_def nft_rule_def Let_def nft_chain_def nftTable4_def nftTable6_def
      del: Addr_String.simps GatewayIPv6_value GatewayIPv4_value)

lemma demo_linux_iptables:
  "\<exists>cleanup st'. Apply_linux (demo_linux [''iptables'']) ''tun0'' ''p:1'' (demo_start, []) = (Inr cleanup, st') \<and>
     length (fst (fst st')) = 2 \<and> length (fw_chain demo_firewall ''iptables'' (fst st')) = 2 \<and> length (fw_chain demo_firewall ''ip6tables'' (fst st')) = 2"
  by (simp add: Apply_linux_def demo_linux_steps demo_linux_exec_def demo_ip demo_nft_exec_def demo_iptables_exec_def demo_start_def demo_firewall_def
      linux_ipv6_dns_def try_add_def redirect_dns_def applyIPTables_def iptables_rule_def Let_def
      del: Addr_String.simps GatewayIPv6_value GatewayIPv4_value)

theorem linux_apply_reverts_witness:
  "(\<exists>cleanup st' items. Apply_linux (demo_linux [''nft'']) ''tun0'' ''p:1'' (demo_start, []) = (Inr cleanup, st') \<and>
     fw_table demo_firewall (''ip'', nftTable4) (fst st') = Some items \<and> length items = 3 \<and>
     world_after (demo_linux [''nft'']) cleanup (fst st') = demo_start) \<and>
   (\<exists>cleanup st'. Apply_linux (demo_linux [''iptables'']) ''tun0'' ''p:1'' (demo_start, []) = (Inr cleanup, st') \<and>
     length (fw_chain demo_firewall ''iptables'' (fst st')) = 2 \<and> length (fw_chain demo_firewall ''ip6tables'' (fst st')) = 2 \<and>
     world_after (demo_linux [''iptables'']) cleanup (fst st') = demo_start)"
proof
  note rev = linux_apply_reverts [OF demo_linux_tools, of "(demo_start, [])", unfolded fst_conv, OF demo_rules_absent]
  show "\<exists>cleanup st' items. Apply_linux (demo_linux [''nft'']) ''tun0'' ''p:1'' (demo_start, []) = (Inr cleanup, st') \<and>
     fw_table demo_firewall (''ip'', nftTable4) (fst st') = Some items \<and> length items = 3 \<and>
     world_after (demo_linux [''nft'']) cleanup (fst st') = demo_start"
    using demo_linux_nft rev by fastforce
  show "\<exists>cleanup st'. Apply_linux (demo_linux [''iptables'']) ''tun0'' ''p:1'' (demo_start, []) = (Inr cleanup, st') \<and>
     length (fw_chain demo_firewall ''iptables'' (fst st')) = 2 \<and> length (fw_chain demo_firewall ''ip6tables'' (fst st')) = 2 \<and>
     world_after (demo_linux [''iptables'']) cleanup (fst st') = demo_start"
    using demo_linux_iptables rev by fastforce
qed

text \<open>A Darwin system with one network service: its world is the routes that were added and the name servers
  of the services. In the second variant the networks cannot be added.\<close>

type_synonym demo_mac = "cmd list \<times> (string \<Rightarrow> string list)"

definition demo_darwin_exec :: "bool \<Rightarrow> cmd \<Rightarrow> demo_mac \<Rightarrow> (bool \<times> string) \<times> demo_mac" where
  "demo_darwin_exec broken c w =
     (if c = [''route'', ''get'', ''8.8.8.8''] then ((True, ''gateway: 10.0.0.1'' @ [newline] @ ''interface: en0''), w)
      else if take 1 c = [''ifconfig''] then ((True, []), w)
      else if take 2 c = [''route'', ''add''] \<and> (\<not> broken \<or> c ! 2 = ''-host'') then ((True, []), (drop 2 c # fst w, snd w))
      else if take 2 c = [''route'', ''delete''] \<and> drop 2 c \<in> set (fst w) then ((True, []), (remove1 (drop 2 c) (fst w), snd w))
      else if c = [''networksetup'', ''-listallhardwareports''] then ((True, ''Hardware Port: Wi-Fi'' @ [newline] @ ''Device: en0''), w)
      else if c = [''networksetup'', ''-getdnsservers'', ''Wi-Fi''] then ((True, servers_text ''Wi-Fi'' (snd w ''Wi-Fi'')), w)
      else if take 3 c = [''networksetup'', ''-setdnsservers'', ''Wi-Fi''] then
        ((True, []), (fst w, (snd w)(''Wi-Fi'' := (if drop 3 c = [''empty''] then [] else drop 3 c))))
      else ((False, []), w))"

definition demo_darwin :: "bool \<Rightarrow> demo_mac sys" where
  "demo_darwin broken = \<lparr>sys_exec = demo_darwin_exec broken, sys_lookPath = (\<lambda>_ _. False), sys_lookupHost = (\<lambda>_ _. Some [''9.9.9.9''])\<rparr>"

definition demo_resolver :: "demo_mac resolver" where
  "demo_resolver = \<lparr>rs_servers = (\<lambda>svc w. snd w svc), rs_setServers = (\<lambda>svc v w. (fst w, (snd w)(svc := v))), rs_service = (\<lambda>svc w. svc = ''Wi-Fi'')\<rparr>"

definition demo_mac_start :: demo_mac where "demo_mac_start = ([], \<lambda>_. [''10.0.0.1'', ''10.0.0.2''])"

lemma demo_darwin_tools: "darwin_tools (demo_darwin b) demo_resolver"
  unfolding darwin_tools_def
proof (intro conjI)
  show "views (rs_servers demo_resolver) (rs_setServers demo_resolver)" by (auto simp: views_def demo_resolver_def fun_upd_twist)
  show "fails_clean (demo_darwin b)" by (auto simp: fails_clean_def demo_darwin_def demo_darwin_exec_def)
qed (auto simp: reads_only_def undone_by_def demo_darwin_def demo_darwin_exec_def demo_resolver_def split: if_splits)

lemma demo_servers_ok: "servers_ok demo_resolver demo_mac_start"
  by (simp add: servers_ok_def demo_resolver_def demo_mac_start_def server_text_def is_space_def)

lemma demo_darwin_steps:
  "run (demo_darwin b) c st = (let r = demo_darwin_exec b c (fst st) in (fst (fst r), (snd r, snd st @ [(c, fst (fst r))])))"
  "defaultDarwinGateway4 (demo_darwin b) st = (Some ''10.0.0.1'', (fst st, snd st @ [([''route'', ''get'', ''8.8.8.8''], True)]))"
  "resolveProxyHost (demo_darwin b) st ''p:1'' = [''9.9.9.9'']"
  by (simp_all add: run_def demo_darwin_def demo_darwin_exec_def defaultDarwinGateway4_def exec_Output_def
      resolveProxyHost_def proxy_host_def strip_scheme_def strip_user_def HasPrefix_def List.map_filter_def Itoa.simps
      go_defs Fields.simps is_space_def split: prod.split)

lemma demo_darwin_detect:
  "\<exists>old. fst (detectNetworkService (demo_darwin b) st) = Some (''Wi-Fi'', old)"
  "fst (snd (detectNetworkService (demo_darwin b) st)) = fst st"
proof -
  show "fst (snd (detectNetworkService (demo_darwin b) st)) = fst st" by (rule detectNetworkService_world(1) [OF demo_darwin_tools])
  show "\<exists>old. fst (detectNetworkService (demo_darwin b) st) = Some (''Wi-Fi'', old)"
    by (simp add: detectNetworkService_def serviceForInterface_def exec_Output_def demo_darwin_def demo_darwin_exec_def
       darwin_currentDNS_def go_defs is_space_def HasPrefix_def case_prod_beta)
qed

lemma demo_darwin_run:
  "\<exists>cleanup st'. Apply_darwin (demo_darwin False) ''utun5'' ''p:1'' (demo_mac_start, []) = (Inr cleanup, st') \<and>
     length (fst (fst st')) = 5 \<and> snd (fst st') ''Wi-Fi'' = [''198.18.0.1'']"
proof -
  have "\<exists>old l. detectNetworkService (demo_darwin False) st = (Some (''Wi-Fi'', old), (fst st, l))" for st
    using demo_darwin_detect [of False st] by (metis prod.collapse)
  then obtain old l where d: "detectNetworkService (demo_darwin False) st = (Some (''Wi-Fi'', old st), (fst st, l st))" for st by metis
  show ?thesis unfolding Apply_darwin_def gateway4_text
    by (simp add: d demo_darwin_steps demo_darwin_exec_def try_add_def darwin_set_dns_def Let_def demo_mac_start_def
      del: Addr_String.simps GatewayIPv6_value)
qed

theorem darwin_apply_reverts_witness:
  "\<exists>cleanup st'. Apply_darwin (demo_darwin False) ''utun5'' ''p:1'' (demo_mac_start, []) = (Inr cleanup, st') \<and>
     length (fst (fst st')) = 5 \<and> snd (fst st') ''Wi-Fi'' = [''198.18.0.1''] \<and> world_after (demo_darwin False) cleanup (fst st') = demo_mac_start"
proof -
  obtain cleanup st' where r: "Apply_darwin (demo_darwin False) ''utun5'' ''p:1'' (demo_mac_start, []) = (Inr cleanup, st')"
      "length (fst (fst st')) = 5 \<and> snd (fst st') ''Wi-Fi'' = [''198.18.0.1'']"
    using demo_darwin_run by blast
  then show ?thesis using darwin_apply_reverts [OF demo_darwin_tools _ r(1)] demo_servers_ok by auto
qed

lemma demo_darwin_leak:
  "\<exists>st'. Apply_darwin (demo_darwin True) ''utun5'' ''p:1'' (demo_mac_start, []) = (Inl AddDefaultIPv4, st') \<and>
     fst (fst st') = [[''-host'', ''9.9.9.9'', ''10.0.0.1'']]"
  unfolding Apply_darwin_def gateway4_text
  by (simp add: demo_darwin_steps demo_darwin_exec_def demo_mac_start_def Let_def del: Addr_String.simps GatewayIPv6_value)

theorem darwin_first_half_leak_witness:
  "\<exists>st' gw l oks. Apply_darwin (demo_darwin True) ''utun5'' ''p:1'' (demo_mac_start, []) = (Inl AddDefaultIPv4, st') \<and>
     fst (fst st') = [[''-host'', ''9.9.9.9'', ''10.0.0.1'']] \<and>
     snd st' = l @ zip (map fst (darwin_hosts gw [''9.9.9.9''])) oks @
       [([''route'', ''add'', ''-net'', ''0.0.0.0/1'', Addr_String GatewayIPv4], False)]"
proof -
  obtain st' where r: "Apply_darwin (demo_darwin True) ''utun5'' ''p:1'' (demo_mac_start, []) = (Inl AddDefaultIPv4, st')"
      "fst (fst st') = [[''-host'', ''9.9.9.9'', ''10.0.0.1'']]"
    using demo_darwin_leak by blast
  from darwin_first_half_leak [OF r(1)] r show ?thesis unfolding demo_darwin_steps(3) by blast
qed

text \<open>A Windows system that answers every PowerShell script with the gateway; in the second variant \<^verbatim>\<open>netsh\<close>
  fails.\<close>

definition demo_windows :: "bool \<Rightarrow> unit sys" where
  "demo_windows broken = \<lparr>sys_exec = (\<lambda>c w. if hd c = ''powershell'' then ((True, ''10.0.0.1''), w) else ((\<not> broken, []), w)),
     sys_lookPath = (\<lambda>_ _. True), sys_lookupHost = (\<lambda>_ _. Some [''9.9.9.9''])\<rparr>"

lemma demo_windows_steps:
  "run (demo_windows b) c st = (hd c = ''powershell'' \<or> \<not> b, (fst st, snd st @ [(c, hd c = ''powershell'' \<or> \<not> b)]))"
  "defaultWindowsGateway4 (demo_windows b) st = (Some ''10.0.0.1'', (fst st, snd st @ [(powershell gatewayScript, True)]))"
  "resolveProxyHost (demo_windows b) st ''p:1'' = [''9.9.9.9'']"
  "windows_currentDNS (demo_windows False) t st = ([], (fst st, snd st @ [([''netsh'', ''interface'', ''ipv4'', ''show'', ''dnsservers'', ''name='' @ t], True)]))"
  by (simp_all add: run_def demo_windows_def defaultWindowsGateway4_def exec_Output_def powershell_def windows_currentDNS_def
      resolveProxyHost_def proxy_host_def strip_scheme_def strip_user_def HasPrefix_def List.map_filter_def Itoa.simps
      go_defs Fields.simps is_space_def split: prod.split)

lemma hd_powershell: "hd (powershell s) = ''powershell''"
  by (simp add: powershell_def)

theorem windows_first_half_leak_witness:
  "\<exists>st' gw l oks. Apply_windows (demo_windows True) ''nano'' ''p:1'' ((), []) = (Inl AddDefaultIPv4, st') \<and> length oks = 2 \<and>
     snd st' = l @ zip (map fst (windows_hosts gw [''9.9.9.9''])) oks @
      [(netsh_add ''ipv4'' ''0.0.0.0/1'' ''nano'' (Addr_String GatewayIPv4), False)]"
proof -
  have "fst (Apply_windows (demo_windows True) ''nano'' ''p:1'' ((), [])) = Inl AddDefaultIPv4"
    unfolding Apply_windows_def by (simp add: demo_windows_steps hd_powershell try_add_def Let_def netsh_add_def del: Addr_String.simps)
  then obtain st' where r: "Apply_windows (demo_windows True) ''nano'' ''p:1'' ((), []) = (Inl AddDefaultIPv4, st')"
    by (cases "Apply_windows (demo_windows True) ''nano'' ''p:1'' ((), [])") auto
  from windows_first_half_leak [OF r] r show ?thesis unfolding demo_windows_steps(3) by force
qed

theorem windows_cleanup_lifo_witness:
  "\<exists>cleanup st' gw oks. Apply_windows (demo_windows False) ''nano'' ''p:1'' ((), []) = (Inr cleanup, st') \<and>
    (let P = windows_hosts gw [''9.9.9.9''] @ windows_routes_pairs ''nano'' in
     length oks = 6 \<and>
     cleanup = [windows_dns_back ''nano'' []] @ map (\<lambda>((a, d), ok). d) (rev (filter snd (zip P oks))) @ [[''ipconfig'', ''/flushdns'']])"
proof -
  have "\<exists>c. fst (Apply_windows (demo_windows False) ''nano'' ''p:1'' ((), [])) = Inr c"
    unfolding Apply_windows_def by (simp add: demo_windows_steps hd_powershell try_add_def windows_set_dns_def Let_def del: Addr_String.simps)
  then obtain c st' where r: "Apply_windows (demo_windows False) ''nano'' ''p:1'' ((), []) = (Inr c, st')"
    by (cases "Apply_windows (demo_windows False) ''nano'' ''p:1'' ((), [])") auto
  then have last: "snd (last (snd st'))"
    unfolding Apply_windows_def by (auto simp: demo_windows_steps hd_powershell try_add_def windows_set_dns_def Let_def simp del: Addr_String.simps)
  have len: "length (windows_hosts gw [''9.9.9.9''] @ windows_routes_pairs ''nano'') = 6" for gw
    by (simp add: windows_hosts_def windows_routes_pairs_def Let_def)
  obtain gw oks st7 old st8 ok where w: "length oks = length (windows_hosts gw [''9.9.9.9''] @ windows_routes_pairs ''nano'')"
      "windows_currentDNS (demo_windows False) ''nano'' st7 = (old, st8)" "snd st' = snd st8 @ [(windows_dns_set ''nano'', ok)]"
      "c = (if ok then [windows_dns_back ''nano'' old] else []) @
        map (\<lambda>((a, d), ok). d) (rev (filter snd (zip (windows_hosts gw [''9.9.9.9''] @ windows_routes_pairs ''nano'') oks))) @ [[''ipconfig'', ''/flushdns'']]"
    using windows_cleanup_lifo [OF r] unfolding demo_windows_steps(3) Let_def by blast
  have "ok" "old = []" using last w(2,3) by (simp_all add: demo_windows_steps(4))
  then show ?thesis using r w(1,4) len by (intro exI [of _ c] exI [of _ st'] exI [of _ gw] exI [of _ oks]) simp
qed

end
