(* ===== verification/Gateway_Handler.thy ===== *)
theory Gateway_Handler
  imports Dns_Relay
begin

text \<open>
  Package \<^verbatim>\<open>internal/gateway\<close>, the file \<^verbatim>\<open>handler.go\<close>: the transport handler that stands before the
  tunnel. What a call does with the connection is one of the values of \<open>action\<close>; the connection itself
  is the endpoint id the gVisor stack gives it, and the upstream handler is a parameter that the
  action \<open>Forward\<close> names.
\<close>

section \<open>Data\<close>

text \<open>\<open>stack.TransportEndpointID\<close>: the local address, a slice of 4 or 16 bytes (or empty), is the
  destination of the flow.\<close>

record EndpointID =
  LocalPort :: port
  LocalAddress :: bytes

datatype action = RelayTCP DNSRelay | RelayUDP DNSRelay | Drop | Forward

definition lanOnlyTCPPorts :: "port list" where
  "lanOnlyTCPPorts = [139, 445]"

definition lanOnlyUDPPorts :: "port list" where
  "lanOnlyUDPPorts = [137, 138, 445, 5353]"

record Handler =
  h_dns :: DNSRelay
  h_gw4 :: Addr
  h_gw6 :: Addr

section \<open>Operations\<close>

definition Handler_New :: "AddrPort \<Rightarrow> Handler" where
  "Handler_New dnsUpstream =
     (let up = (if \<not> AddrPort_IsValid dnsUpstream then DefaultUpstreamDNS else dnsUpstream)
      in \<lparr>h_dns = newDNSRelay up, h_gw4 = GatewayIPv4, h_gw6 = GatewayIPv6\<rparr>)"

definition AddrFromSlice :: "bytes \<Rightarrow> Addr option" where
  "AddrFromSlice b =
     (if length b = 4 then Some (V4 (word_of_bytes (map unat b)))
      else if length b = 16 then Some (V6 (word_of_bytes (map unat b)) [])
      else None)"

definition addrFromTCPIP :: "bytes \<Rightarrow> Addr" where
  "addrFromTCPIP b = (case AddrFromSlice b of None \<Rightarrow> AddrZero | Some addr \<Rightarrow> Unmap addr)"

definition Handler_HandleTCP :: "Handler \<Rightarrow> EndpointID \<Rightarrow> action" where
  "Handler_HandleTCP h eid =
     (let dst = addrFromTCPIP (LocalAddress eid) in
      if dst = h_gw4 h \<or> dst = h_gw6 h then
        (if LocalPort eid = 53 then RelayTCP (h_dns h) else Drop)
      else if LocalPort eid \<in> set lanOnlyTCPPorts then Drop
      else Forward)"

definition Handler_HandleUDP :: "Handler \<Rightarrow> EndpointID \<Rightarrow> action" where
  "Handler_HandleUDP h eid =
     (let dst = addrFromTCPIP (LocalAddress eid) in
      if (dst = h_gw4 h \<or> dst = h_gw6 h) \<and> LocalPort eid = 53 then RelayUDP (h_dns h)
      else if LocalPort eid \<in> set lanOnlyUDPPorts then Drop
      else Forward)"

section \<open>Addresses of endpoints\<close>

text \<open>The bytes of an address, as the stack stores them.\<close>

definition v4_bytes :: "32 word \<Rightarrow> bytes" where
  "v4_bytes w = map (v4byte w) [0..<4]"

definition v6_bytes :: "128 word \<Rightarrow> bytes" where
  "v6_bytes w = map (v6byte w) [0..<16]"

definition is_gateway :: "bytes \<Rightarrow> bool" where
  "is_gateway b \<longleftrightarrow> addrFromTCPIP b = GatewayIPv4 \<or> addrFromTCPIP b = GatewayIPv6"

text \<open>Reading the bytes back gives the address.\<close>

lemma ucast_byte: "ucast (ucast u :: byte) = take_bit 8 (u :: 'a::len word)"
  by (rule bit_word_eqI) (auto simp: bit_simps dest: bit_imp_le_length)

lemma bytes_fold:
  assumes "k \<le> n"
  shows "foldl (\<lambda>a b. a * 256 + of_nat b) 0
      (map (\<lambda>i. unat (ucast (drop_bit (8 * (n - Suc i)) w) :: byte)) [0..<k]) =
    take_bit (8 * k) (drop_bit (8 * (n - k)) (w :: 'a::len word))"
  using assms
proof (induction k)
  case (Suc k)
  let ?u = "drop_bit (8 * (n - Suc k)) w"
  have u: "drop_bit (8 * (n - k)) w = drop_bit 8 ?u"
    using Suc.prems by (simp add: drop_bit_drop_bit Suc_diff_Suc algebra_simps flip: Suc_diff_Suc)
  have "take_bit (8 * Suc k) ?u = push_bit 8 (take_bit (8 * k) (drop_bit 8 ?u)) + take_bit 8 ?u"
    using bits_ident [of 8 "take_bit (8 * Suc k) ?u"] by (simp add: drop_bit_take_bit take_bit_take_bit)
  then show ?case using Suc by (simp add: u ucast_byte push_bit_eq_mult)
qed simp

lemma word_of_v4_bytes [simp]: "word_of_bytes (map unat (v4_bytes w)) = w"
  using bytes_fold [of 4 4 w] by (simp add: word_of_bytes_def v4_bytes_def v4byte_def comp_def take_bit_word_eq_self)

lemma word_of_v6_bytes [simp]: "word_of_bytes (map unat (v6_bytes w)) = w"
  using bytes_fold [of 16 16 w] by (simp add: word_of_bytes_def v6_bytes_def v6byte_def comp_def take_bit_word_eq_self)

lemma length_v4_bytes [simp]: "length (v4_bytes w) = 4" by (simp add: v4_bytes_def)

lemma length_v6_bytes [simp]: "length (v6_bytes w) = 16" by (simp add: v6_bytes_def)

lemma addrFromTCPIP_bytes [simp]:
  "addrFromTCPIP (v4_bytes w) = V4 w" "addrFromTCPIP (v6_bytes v) = Unmap (V6 v [])"
  by (simp_all add: addrFromTCPIP_def AddrFromSlice_def)

text \<open>Slices of the same length that give the same address are equal.\<close>

definition horner :: "bytes \<Rightarrow> nat" where
  "horner bs = foldl (\<lambda>a b. a * 256 + unat b) 0 bs"

lemma horner_snoc: "horner (bs @ [b]) = horner bs * 256 + unat b"
  by (simp add: horner_def)

lemma byte_bound: "unat (b :: byte) < 256"
  using unsigned_less [of b] by simp

lemma horner_bound: "horner bs < 256 ^ length bs"
proof (induction bs rule: rev_induct)
  case (snoc b bs)
  have "horner (bs @ [b]) < (horner bs + 1) * 256" using byte_bound [of b] by (simp add: horner_snoc)
  also have "\<dots> \<le> 256 ^ length bs * 256" using snoc by (intro mult_le_mono1) simp
  finally show ?case by simp
qed (simp add: horner_def)

lemma horner_inj: "length bs = length cs \<Longrightarrow> horner bs = horner cs \<Longrightarrow> bs = cs"
proof (induction bs arbitrary: cs rule: rev_induct)
  case (snoc b bs)
  then obtain ds d where cs: "cs = ds @ [d]" by (cases cs rule: rev_cases) auto
  have eq: "horner bs * 256 + unat b = horner ds * 256 + unat d" using snoc.prems by (simp add: cs horner_snoc)
  then have "horner bs = horner ds"
    using arg_cong [OF eq, of "\<lambda>n. n div 256"] byte_bound [of b] byte_bound [of d] by simp
  with eq have "unat b = unat d" by simp
  then show ?case using snoc \<open>horner bs = horner ds\<close> by (simp add: cs word_eq_iff_unat)
qed simp

lemma word_of_bytes_horner: "word_of_bytes (map unat bs) = of_nat (horner bs)"
  by (induction bs rule: rev_induct) (simp_all add: word_of_bytes_def horner_def)

lemma word_of_bytes_inj:
  fixes bs cs :: bytes
  assumes "length bs = length cs" "256 ^ length cs \<le> (2::nat) ^ LENGTH('a)"
    and "(word_of_bytes (map unat bs) :: 'a::len word) = word_of_bytes (map unat cs)"
  shows "bs = cs"
proof (rule horner_inj [OF assms(1)])
  have "horner bs < 2 ^ LENGTH('a)" "horner cs < 2 ^ LENGTH('a)"
    using horner_bound [of bs] horner_bound [of cs] assms(1,2) by simp_all
  then show "horner bs = horner cs"
    using assms(3) by (metis word_of_bytes_horner of_nat_inverse)
qed

lemma addrFromTCPIP_cases:
  obtains (v4) w where "b = v4_bytes w" | (v6) v where "b = v6_bytes v" | (none) "addrFromTCPIP b = AddrZero"
proof -
  consider "length b = 4" | "length b = 16" | "length b \<noteq> 4 \<and> length b \<noteq> 16" by blast
  then show thesis
  proof cases
    case 1
    then have "b = v4_bytes (word_of_bytes (map unat b))"
      by (intro word_of_bytes_inj [where 'a = 32]) simp_all
    then show thesis by (rule v4)
  next
    case 2
    then have "b = v6_bytes (word_of_bytes (map unat b))"
      by (intro word_of_bytes_inj [where 'a = 128]) simp_all
    then show thesis by (rule v6)
  next
    case 3
    then show thesis by (intro none) (simp add: addrFromTCPIP_def AddrFromSlice_def)
  qed
qed

lemma mapped_word:
  fixes v :: "128 word"
  assumes "drop_bit 32 v = 0xffff"
  shows "v = 0xffff00000000 + ucast (ucast v :: 32 word)"
proof -
  have "ucast (ucast v :: 32 word) = take_bit 32 v"
    by (rule bit_word_eqI) (auto simp: bit_simps dest: bit_imp_le_length)
  moreover have "push_bit 32 (drop_bit 32 v) = 0xffff00000000" by (simp add: assms)
  ultimately show ?thesis using bits_ident [of 32 v] by (simp add: add.commute)
qed

section \<open>Properties\<close>

text \<open>The addresses the handler takes for the gateway are exactly three byte strings: the IPv4
  gateway, the same address in its IPv4-mapped IPv6 form, and the IPv6 gateway; a slice of any other
  length or content is not the gateway.\<close>

theorem gateway_slices:
  "is_gateway b \<longleftrightarrow>
     b = [198, 18, 0, 1] \<or>
     b = [0, 0, 0, 0, 0, 0, 0, 0, 0, 0, 0xff, 0xff, 198, 18, 0, 1] \<or>
     b = [0xfd, 0xfe, 0xdc, 0xba, 0x98, 0x76, 0, 0, 0, 0, 0, 0, 0, 0, 0, 1]"
  (is "_ \<longleftrightarrow> ?R")
proof
  assume g: "is_gateway b"
  show ?R
  proof (cases b rule: addrFromTCPIP_cases)
    case (v4 w)
    with g have "w = 0xC6120001" by (auto simp: is_gateway_def)
    then show ?thesis by (simp add: v4 v4_bytes_def v4byte_def upt_rec)
  next
    case (v6 v)
    with g have "drop_bit 32 v = 0xffff \<and> ucast v = (0xC6120001 :: 32 word) \<or> v = 0xfdfedcba987600000000000000000001"
      by (auto simp: is_gateway_def split: if_splits)
    then have "v = 0xffffc6120001 \<or> v = 0xfdfedcba987600000000000000000001"
    proof
      assume v: "drop_bit 32 v = 0xffff \<and> ucast v = (0xC6120001 :: 32 word)"
      have "v = 0xffff00000000 + ucast (0xC6120001 :: 32 word)"
        using mapped_word [OF conjunct1 [OF v]] by (simp only: conjunct2 [OF v])
      then show ?thesis by simp
    qed simp
    then show ?thesis
      by (rule disjE) (simp_all add: v6 v6_bytes_def v6byte_def upt_rec)
  next
    case none
    with g show ?thesis by (simp add: is_gateway_def)
  qed
next
  assume ?R
  then show "is_gateway b"
    by (auto simp: is_gateway_def addrFromTCPIP_def AddrFromSlice_def word_of_bytes_def)
qed

text \<open>C20. What a handler made by \<open>New\<close> lets through and what it relays: a TCP flow reaches the tunnel
  exactly when it is not for the gateway and not on a LAN-only port; a UDP flow exactly when it is not
  DNS for the gateway and not on a LAN-only port; the relay gets exactly port 53 of the gateway, and
  its resolver is the configured one, or 8.8.8.8:53 when that is the zero value.\<close>

theorem gateway_dispatch:
  "let h = Handler_New dns; b = LocalAddress eid; p = LocalPort eid in
   (Handler_HandleTCP h eid = Forward \<longleftrightarrow> \<not> is_gateway b \<and> p \<notin> {139, 445}) \<and>
   (Handler_HandleUDP h eid = Forward \<longleftrightarrow> \<not> (is_gateway b \<and> p = 53) \<and> p \<notin> {137, 138, 445, 5353}) \<and>
   (Handler_HandleTCP h eid = RelayTCP (h_dns h) \<longleftrightarrow> is_gateway b \<and> p = 53) \<and>
   (Handler_HandleUDP h eid = RelayUDP (h_dns h) \<longleftrightarrow> is_gateway b \<and> p = 53) \<and>
   dr_upstream (h_dns h) = (if AddrPort_IsValid dns then dns else AddrPort (V4 0x08080808) 53)"
  by (auto simp: Let_def Handler_New_def Handler_HandleTCP_def Handler_HandleUDP_def is_gateway_def
      lanOnlyTCPPorts_def lanOnlyUDPPorts_def newDNSRelay_def)

end
