(* ===== verification/Stack_Driver.thy ===== *)
theory Stack_Driver
  imports Route_Undo Gateway_Handler
begin

text \<open>
  Packages \<^verbatim>\<open>internal/stack/gvisor\<close> and \<^verbatim>\<open>internal/stack/simple\<close>: the two drivers. The libraries they call
  (the TUN device and \<open>core.CreateStack\<close> of tun2socks, the gVisor stack) are the parameter \<open>lib\<close>: a call
  succeeds or fails and may change the world. The state is the world and the log of what the driver did,
  in order: the calls with their success, and the commands of the operating system that
  \<open>tunconf.Configure\<close>, \<open>autoroute.Apply\<close> and the cleanup ran. Deferred calls run when the function that
  deferred them returns, on every path.

  The locale \<open>packet_stack\<close> is what \<open>Run\<close> relies on in the part that builds and serves the stack, with an
  interpretation for each driver; the locale \<open>platform_undo\<close> is what it relies on in the route installer,
  with an interpretation for Linux and one for Darwin.
\<close>

section \<open>Data\<close>

datatype NetProto = ProtoIPv4 | ProtoIPv6

datatype TransProto = ProtoTCP | ProtoUDP | ProtoICMP4 | ProtoICMP6

datatype forwarder = TCPForwarder nat nat | UDPForwarder

datatype lib_call =
    TunOpen string "32 word"
  | TunClose string
  | CreateStack string
  | StackNew "NetProto list" "TransProto list"
  | CreateNIC nat string
  | SetPromiscuousMode nat bool
  | SetSpoofing nat bool
  | AddProtocolAddress nat NetProto bytes nat
  | SetRouteTable "(NetProto \<times> nat) list"
  | SetTransportProtocolHandler forwarder
  | StackClose

datatype ctx_error = Canceled | DeadlineExceeded

datatype build_error = CreateNICError | PromiscuousError | SpoofingError

datatype run_error =
    OpenTun
  | ConfigureTun tun_error
  | AutoRoute route_error
  | CreateStackError
  | BuildStack build_error
  | CtxErr ctx_error
  | NotBuilt

datatype drv_event = OsCmds "(cmd \<times> bool) list" | LibCall lib_call bool | CtxDone | Waited duration

text \<open>What the libraries answer: the name of the device that was opened, the effect of a call, the next
  interface number, the interfaces of a stack in the order the map gives them, how long \<open>Wait\<close> of a closed
  stack takes (\<^const>\<open>None\<close>: for ever), what happens to the world until the context is done, and its error.\<close>

record 'w lib =
  lib_devName :: "string \<Rightarrow> 'w \<Rightarrow> string"
  lib_exec :: "lib_call \<Rightarrow> 'w \<Rightarrow> bool \<times> 'w"
  lib_NextNICID :: "'w \<Rightarrow> nat"
  lib_NICInfo :: "'w \<Rightarrow> nat list"
  lib_Wait :: "'w \<Rightarrow> duration option"
  lib_untilDone :: "'w \<Rightarrow> 'w"
  lib_ctxErr :: "'w \<Rightarrow> ctx_error"

record 'w drv =
  dr_world :: 'w
  dr_log :: "drv_event list"

record ('h, 'l) DriverOptions =
  do_TunName :: string
  do_MTU :: int
  do_Handler :: "'h option"
  do_Logger :: "'l option"
  do_EnableIPv6 :: bool
  do_AutoDefaultRoute :: bool
  do_ProxyAddr :: string

section \<open>Steps\<close>

definition call :: "'w lib \<Rightarrow> lib_call \<Rightarrow> 'w drv \<Rightarrow> bool \<times> 'w drv" where
  "call lib c s =
     (case lib_exec lib c (dr_world s) of
        (ok, w') \<Rightarrow> (ok, s\<lparr>dr_world := w', dr_log := dr_log s @ [LibCall c ok]\<rparr>))"

definition os_do :: "('w st \<Rightarrow> 'a \<times> 'w st) \<Rightarrow> 'w drv \<Rightarrow> 'a \<times> 'w drv" where
  "os_do f s = (case f (dr_world s, []) of (x, (w', l)) \<Rightarrow> (x, s\<lparr>dr_world := w', dr_log := dr_log s @ [OsCmds l]\<rparr>))"

text \<open>The cleanup function that \<open>autoroute.Apply\<close> returned.\<close>

definition cleanupRoutes :: "'w sys \<Rightarrow> cmd list \<Rightarrow> 'w drv \<Rightarrow> 'w drv" where
  "cleanupRoutes sys cleanup s = snd (os_do (\<lambda>st. ((), run_each sys cleanup st)) s)"

text \<open>\<open>defer d(); body\<close>.\<close>

definition deferring :: "('w drv \<Rightarrow> 'w drv) \<Rightarrow> ('w drv \<Rightarrow> 'a \<times> 'w drv) \<Rightarrow> 'w drv \<Rightarrow> 'a \<times> 'w drv" where
  "deferring d body s = (let (r, s') = body s in (r, d s'))"

definition waitWithTimeout :: "'w lib \<Rightarrow> duration \<Rightarrow> 'w drv \<Rightarrow> 'w drv" where
  "waitWithTimeout lib timeout s =
     s\<lparr>dr_log := dr_log s @
        [Waited (case lib_Wait lib (dr_world s) of None \<Rightarrow> timeout | Some t \<Rightarrow> if t \<le> timeout then t else timeout)]\<rparr>"

definition stopStack :: "'w lib \<Rightarrow> 'w drv \<Rightarrow> 'w drv" where
  "stopStack lib s = waitWithTimeout lib (2 * second_ns) (snd (call lib StackClose s))"

text \<open>\<open><-ctx.Done()\<close> and \<open>ctx.Err()\<close>.\<close>

definition ctxDone :: "'w lib \<Rightarrow> 'w drv \<Rightarrow> run_error \<times> 'w drv" where
  "ctxDone lib s =
     (let w' = lib_untilDone lib (dr_world s) in
      (CtxErr (lib_ctxErr lib w'), s\<lparr>dr_world := w', dr_log := dr_log s @ [CtxDone]\<rparr>))"

text \<open>The bytes of an address. \<open>As4\<close> panics on an address that is not IPv4; it is called on the gateway only.\<close>

definition As4 :: "Addr \<Rightarrow> bytes" where
  "As4 a = (case Unmap a of V4 w \<Rightarrow> v4_bytes w | _ \<Rightarrow> [])"

definition As16 :: "Addr \<Rightarrow> bytes" where
  "As16 a = (case a of AddrZero \<Rightarrow> replicate 16 0 | V4 w \<Rightarrow> v6_bytes (push_bit 32 0xffff + ucast w) | V6 w z \<Rightarrow> v6_bytes w)"

section \<open>Constructors\<close>

definition Driver_New :: "'l \<Rightarrow> ('h, 'l) DriverOptions \<Rightarrow> ('h, 'l) DriverOptions option" where
  "Driver_New slogDefault opts =
     (case do_Handler opts of
        None \<Rightarrow> None
      | Some h \<Rightarrow>
          Some (case do_Logger opts of None \<Rightarrow> opts\<lparr>do_Logger := Some slogDefault\<rparr> | Some l \<Rightarrow> opts))"

section \<open>Run\<close>

text \<open>The two drivers open and configure the device and install the routes with the same statements;
  \<open>serve\<close> is what each does after them. The package \<^verbatim>\<open>tunconf\<close> does not build on other platforms.\<close>

definition Driver_session ::
  "('w lib \<Rightarrow> ('h, 'l) DriverOptions \<Rightarrow> string \<Rightarrow> 'w drv \<Rightarrow> run_error \<times> 'w drv) \<Rightarrow> GOOS \<Rightarrow> 'w sys \<Rightarrow>
   ('w sys \<Rightarrow> string \<Rightarrow> 'w st \<Rightarrow> tun_error option \<times> 'w st) \<Rightarrow>
   'w lib \<Rightarrow> ('h, 'l) DriverOptions \<Rightarrow> string \<Rightarrow> 'w drv \<Rightarrow> run_error \<times> 'w drv" where
  "Driver_session serve os sys configure lib opts name s1 =
     (case os_do (configure sys name) s1 of
        (Some e, s2) \<Rightarrow> (ConfigureTun e, s2)
      | (None, s2) \<Rightarrow>
          if do_AutoDefaultRoute opts then
            (case os_do (Apply os sys name (do_ProxyAddr opts)) s2 of
               (Inl e, s3) \<Rightarrow> (AutoRoute e, s3)
             | (Inr cleanup, s3) \<Rightarrow> deferring (cleanupRoutes sys cleanup) (serve lib opts name) s3)
          else serve lib opts name s2)"

definition Driver_Run ::
  "('w lib \<Rightarrow> ('h, 'l) DriverOptions \<Rightarrow> string \<Rightarrow> 'w drv \<Rightarrow> run_error \<times> 'w drv) \<Rightarrow>
   GOOS \<Rightarrow> 'w sys \<Rightarrow> 'w lib \<Rightarrow> ('h, 'l) DriverOptions \<Rightarrow> 'w drv \<Rightarrow> run_error \<times> 'w drv" where
  "Driver_Run serve os sys lib opts s =
     (case Configure os of
        None \<Rightarrow> (NotBuilt, s)
      | Some configure \<Rightarrow>
          let (opened, s1) = call lib (TunOpen (do_TunName opts) (word_of_int (do_MTU opts))) s in
          if \<not> opened then (OpenTun, s1)
          else let name = lib_devName lib (do_TunName opts) (dr_world s1) in
            deferring (\<lambda>s. snd (call lib (TunClose name) s))
              (Driver_session serve os sys configure lib opts name) s1)"

subsection \<open>The gVisor driver\<close>

text \<open>Ranging over the interfaces takes the first one; 0 stands for none.\<close>

definition gvisor_addGatewayAddresses :: "'w lib \<Rightarrow> 'w drv \<Rightarrow> 'w drv" where
  "gvisor_addGatewayAddresses lib s =
     (let nicID = (case lib_NICInfo lib (dr_world s) of [] \<Rightarrow> 0 | i # _ \<Rightarrow> i) in
      if nicID = 0 then s
      else
        let (_, s1) = call lib (AddProtocolAddress nicID ProtoIPv4 (As4 GatewayIPv4) (pfx_bits PrefixIPv4)) s;
            (_, s2) = call lib (AddProtocolAddress nicID ProtoIPv6 (As16 GatewayIPv6) (pfx_bits PrefixIPv6)) s1
        in s2)"

definition gvisor_serve :: "'w lib \<Rightarrow> ('h, 'l) DriverOptions \<Rightarrow> string \<Rightarrow> 'w drv \<Rightarrow> run_error \<times> 'w drv" where
  "gvisor_serve lib opts name s =
     (let (ok, s1) = call lib (CreateStack name) s in
      if \<not> ok then (CreateStackError, s1)
      else deferring (stopStack lib) (\<lambda>s. ctxDone lib (gvisor_addGatewayAddresses lib s)) s1)"

definition gvisor_Run ::
  "GOOS \<Rightarrow> 'w sys \<Rightarrow> 'w lib \<Rightarrow> ('h, 'l) DriverOptions \<Rightarrow> 'w drv \<Rightarrow> run_error \<times> 'w drv" where
  "gvisor_Run = Driver_Run gvisor_serve"

subsection \<open>The simple driver\<close>

definition simple_addGatewayAddresses :: "'w lib \<Rightarrow> nat \<Rightarrow> bool \<Rightarrow> 'w drv \<Rightarrow> 'w drv" where
  "simple_addGatewayAddresses lib nicID enableIPv6 s =
     (let (_, s1) = call lib (AddProtocolAddress nicID ProtoIPv4 (As4 GatewayIPv4) (pfx_bits PrefixIPv4)) s in
      if enableIPv6 then
        snd (call lib (AddProtocolAddress nicID ProtoIPv6 (As16 GatewayIPv6) (pfx_bits PrefixIPv6)) s1)
      else s1)"

definition tcpWindowSize :: nat where "tcpWindowSize = 2 ^ 20"

definition tcpMaxConnAttempts :: nat where "tcpMaxConnAttempts = 512"

definition registerTCPForwarder :: "'w lib \<Rightarrow> 'w drv \<Rightarrow> 'w drv" where
  "registerTCPForwarder lib s = snd (call lib (SetTransportProtocolHandler (TCPForwarder tcpWindowSize tcpMaxConnAttempts)) s)"

definition registerUDPForwarder :: "'w lib \<Rightarrow> 'w drv \<Rightarrow> 'w drv" where
  "registerUDPForwarder lib s = snd (call lib (SetTransportProtocolHandler UDPForwarder) s)"

definition buildStack :: "'w lib \<Rightarrow> string \<Rightarrow> bool \<Rightarrow> 'w drv \<Rightarrow> build_error option \<times> 'w drv" where
  "buildStack lib ep enableIPv6 s =
     (let netProtocols = [ProtoIPv4] @ (if enableIPv6 then [ProtoIPv6] else []);
          icmpProtocols = [ProtoICMP4] @ (if enableIPv6 then [ProtoICMP6] else []);
          (_, s1) = call lib (StackNew netProtocols ([ProtoTCP, ProtoUDP] @ icmpProtocols)) s;
          nicID = lib_NextNICID lib (dr_world s1);
          (created, s2) = call lib (CreateNIC nicID ep) s1
      in if \<not> created then (Some CreateNICError, s2)
         else let (promiscuous, s3) = call lib (SetPromiscuousMode nicID True) s2 in
         if \<not> promiscuous then (Some PromiscuousError, s3)
         else let (spoofing, s4) = call lib (SetSpoofing nicID True) s3 in
         if \<not> spoofing then (Some SpoofingError, s4)
         else
           let s5 = simple_addGatewayAddresses lib nicID enableIPv6 s4;
               routes = [(ProtoIPv4, nicID)] @ (if enableIPv6 then [(ProtoIPv6, nicID)] else []);
               (_, s6) = call lib (SetRouteTable routes) s5
           in (None, registerUDPForwarder lib (registerTCPForwarder lib s6)))"

definition simple_serve :: "'w lib \<Rightarrow> ('h, 'l) DriverOptions \<Rightarrow> string \<Rightarrow> 'w drv \<Rightarrow> run_error \<times> 'w drv" where
  "simple_serve lib opts name s =
     (case buildStack lib name (do_EnableIPv6 opts) s of
        (Some e, s1) \<Rightarrow> (BuildStack e, s1)
      | (None, s1) \<Rightarrow> deferring (stopStack lib) (ctxDone lib) s1)"

definition simple_Run ::
  "GOOS \<Rightarrow> 'w sys \<Rightarrow> 'w lib \<Rightarrow> ('h, 'l) DriverOptions \<Rightarrow> 'w drv \<Rightarrow> run_error \<times> 'w drv" where
  "simple_Run = Driver_Run simple_serve"

subsection \<open>The forwarders of the simple driver\<close>

definition tcpKeepaliveIdle :: duration where "tcpKeepaliveIdle = 60 * second_ns"

definition tcpKeepaliveInterval :: duration where "tcpKeepaliveInterval = 30 * second_ns"

datatype fwd_event =
    CreateEndpoint bool
  | SetKeepAlive bool
  | SetIdle duration bool
  | SetInterval duration bool
  | SetCount nat bool
  | EpClose
  | Handled action
  | Complete bool

text \<open>What the endpoint of a request answers.\<close>

record ep_env =
  ep_create :: bool
  ep_idle :: bool
  ep_interval :: bool
  ep_count :: bool

definition setSocketOptions :: "ep_env \<Rightarrow> bool \<times> fwd_event list" where
  "setSocketOptions env =
     (if \<not> ep_idle env then (False, [SetKeepAlive True, SetIdle tcpKeepaliveIdle False])
      else if \<not> ep_interval env then
        (False, [SetKeepAlive True, SetIdle tcpKeepaliveIdle True, SetInterval tcpKeepaliveInterval False])
      else (ep_count env, [SetKeepAlive True, SetIdle tcpKeepaliveIdle True, SetInterval tcpKeepaliveInterval True,
              SetCount 9 (ep_count env)]))"

definition tcp_forward :: "Handler \<Rightarrow> ep_env \<Rightarrow> EndpointID \<Rightarrow> fwd_event list" where
  "tcp_forward handler env eid =
     (if \<not> ep_create env then [CreateEndpoint False, Complete True]
      else
        let (ok, evs) = setSocketOptions env in
        [CreateEndpoint True] @ evs @
        (if \<not> ok then [EpClose] else [Handled (Handler_HandleTCP handler eid)]) @
        [Complete False])"

definition udp_forward :: "Handler \<Rightarrow> ep_env \<Rightarrow> EndpointID \<Rightarrow> fwd_event list" where
  "udp_forward handler env eid =
     (if \<not> ep_create env then [CreateEndpoint False]
      else [CreateEndpoint True, Handled (Handler_HandleUDP handler eid)])"

section \<open>Resources\<close>

text \<open>The device and the stack, followed through a log: whether each is open. A step that needs one of them
  closed or open and finds it otherwise is an error.\<close>

fun res_step :: "bool \<times> bool \<Rightarrow> drv_event \<Rightarrow> (bool \<times> bool) option" where
  "res_step (dev, stk) (LibCall (TunOpen n m) ok) = (if \<not> dev then Some (ok, stk) else None)"
| "res_step (dev, stk) (LibCall (TunClose n) ok) = (if dev then Some (False, stk) else None)"
| "res_step (dev, stk) (LibCall (CreateStack n) ok) = (if dev \<and> \<not> stk then Some (True, ok) else None)"
| "res_step (dev, stk) (LibCall (StackNew ns ts) ok) = (if dev \<and> \<not> stk then Some (True, True) else None)"
| "res_step (dev, stk) (LibCall StackClose ok) = (if dev \<and> stk then Some (True, False) else None)"
| "res_step (dev, stk) (LibCall c ok) = (if dev \<and> stk then Some (True, True) else None)"
| "res_step (dev, stk) (OsCmds l) = (if dev then Some (True, stk) else None)"
| "res_step (dev, stk) CtxDone = (if dev \<and> stk then Some (True, True) else None)"
| "res_step (dev, stk) (Waited t) = (if dev then Some (True, stk) else None)"

fun res_run :: "bool \<times> bool \<Rightarrow> drv_event list \<Rightarrow> (bool \<times> bool) option" where
  "res_run r [] = Some r"
| "res_run r (e # es) = Option.bind (res_step r e) (\<lambda>r'. res_run r' es)"

lemma res_run_append: "res_run r (xs @ ys) = Option.bind (res_run r xs) (\<lambda>r'. res_run r' ys)"
  by (induction xs arbitrary: r) (auto split: bind_splits)

text \<open>Calls that do not change the world the operating system commands see: all but opening and closing the
  device; and nothing else changes it while the driver waits.\<close>

definition quiet :: "'w lib \<Rightarrow> bool" where
  "quiet lib \<longleftrightarrow>
     (\<forall>c w. (case c of TunOpen _ _ \<Rightarrow> True | TunClose _ \<Rightarrow> True | _ \<Rightarrow> snd (lib_exec lib c w) = w)) \<and>
     (\<forall>w. lib_untilDone lib w = w)"

lemma call_log: "dr_log (snd (call lib c s)) = dr_log s @ [LibCall c (fst (call lib c s))]"
  by (simp add: call_def split: prod.split)

lemma call_world: "dr_world (snd (call lib c s)) = snd (lib_exec lib c (dr_world s))"
  by (simp add: call_def split: prod.split)

lemma quiet_call: "quiet lib \<Longrightarrow> (case c of TunOpen _ _ \<Rightarrow> False | TunClose _ \<Rightarrow> False | _ \<Rightarrow> True) \<Longrightarrow> dr_world (snd (call lib c s)) = dr_world s"
  unfolding quiet_def call_world by (elim conjE allE [of _ c]) (cases c; simp)

lemma os_do_log: "dr_log (snd (os_do f s)) = dr_log s @ [OsCmds (snd (snd (f (dr_world s, []))))]"
  by (simp add: os_do_def split: prod.split)

lemma os_do_result: "fst (os_do f s) = fst (f (dr_world s, []))" "dr_world (snd (os_do f s)) = fst (snd (f (dr_world s, [])))"
  by (simp_all add: os_do_def split: prod.split)

lemma cleanupRoutes_log: "\<exists>l. dr_log (cleanupRoutes sys cleanup s) = dr_log s @ [OsCmds l] \<and> map fst l = cleanup"
  by (simp add: cleanupRoutes_def os_do_log run_each_log)

lemma cleanupRoutes_world: "dr_world (cleanupRoutes sys cleanup s) = world_after sys cleanup (dr_world s)"
  by (simp add: cleanupRoutes_def os_do_result run_each_world)

lemma stopStack_log: "\<exists>ok t. dr_log (stopStack lib s) = dr_log s @ [LibCall StackClose ok, Waited t] \<and> t \<le> 2 * second_ns"
  by (auto simp: stopStack_def waitWithTimeout_def call_log split: option.split)

lemma stopStack_world: "quiet lib \<Longrightarrow> dr_world (stopStack lib s) = dr_world s"
  by (simp add: stopStack_def waitWithTimeout_def quiet_call)

lemma ctxDone_effect:
  "\<exists>c. fst (ctxDone lib s) = CtxErr c" "dr_log (snd (ctxDone lib s)) = dr_log s @ [CtxDone]"
  "quiet lib \<Longrightarrow> dr_world (snd (ctxDone lib s)) = dr_world s"
  by (simp_all add: ctxDone_def quiet_def Let_def)

section \<open>The paths of Run\<close>

lemma Configure_None: "Configure os = None \<longleftrightarrow> os = OtherOS"
  by (cases os) simp_all

lemma Driver_Run_cases [consumes 1, case_names not_built not_opened opened]:
  fixes sys :: "'w sys"
  assumes "Driver_Run serve os sys lib opts s = (e, s')"
  obtains "os = OtherOS" "e = NotBuilt" "s' = s"
  | "call lib (TunOpen (do_TunName opts) (word_of_int (do_MTU opts))) s = (False, s')" "e = OpenTun"
  | configure s1 s2 name where "Configure os = Some configure"
      "call lib (TunOpen (do_TunName opts) (word_of_int (do_MTU opts))) s = (True, s1)"
      "name = lib_devName lib (do_TunName opts) (dr_world s1)"
      "Driver_session serve os sys configure lib opts name s1 = (e, s2)" "s' = snd (call lib (TunClose name) s2)"
proof (cases "Configure os :: ('w sys \<Rightarrow> string \<Rightarrow> 'w st \<Rightarrow> tun_error option \<times> 'w st) option")
  case None
  with assms that(1) show thesis by (simp add: Driver_Run_def Configure_None)
next
  case (Some configure)
  obtain opened s1 where c: "call lib (TunOpen (do_TunName opts) (word_of_int (do_MTU opts))) s = (opened, s1)" by (rule prod.exhaust)
  define name where "name = lib_devName lib (do_TunName opts) (dr_world s1)"
  obtain e2 s2 where b: "Driver_session serve os sys configure lib opts name s1 = (e2, s2)" by (rule prod.exhaust)
  have run: "Driver_Run serve os sys lib opts s = (if \<not> opened then (OpenTun, s1) else (e2, snd (call lib (TunClose name) s2)))"
    unfolding Driver_Run_def Some option.case c Let_def prod.case name_def [symmetric] deferring_def b by (rule refl)
  show thesis
  proof (cases opened)
    case False
    with run assms c show thesis by (intro that(2)) auto
  next
    case True
    with run assms b have "Driver_session serve os sys configure lib opts name s1 = (e, s2)" "s' = snd (call lib (TunClose name) s2)"
      by auto
    with True c show thesis by (intro that(3) [OF Some _ name_def]) auto
  qed
qed

lemma Driver_session_cases [consumes 1, case_names configure_error route_error routed plain]:
  assumes "Driver_session serve os sys configure lib opts name s1 = (e, s')"
  obtains ce where "os_do (configure sys name) s1 = (Some ce, s')" "e = ConfigureTun ce"
  | re s2 where "os_do (configure sys name) s1 = (None, s2)" "do_AutoDefaultRoute opts"
      "os_do (Apply os sys name (do_ProxyAddr opts)) s2 = (Inl re, s')" "e = AutoRoute re"
  | cleanup s2 s3 where "os_do (configure sys name) s1 = (None, s2)" "do_AutoDefaultRoute opts"
      "os_do (Apply os sys name (do_ProxyAddr opts)) s2 = (Inr cleanup, s3)"
      "deferring (cleanupRoutes sys cleanup) (serve lib opts name) s3 = (e, s')"
  | s2 where "os_do (configure sys name) s1 = (None, s2)" "\<not> do_AutoDefaultRoute opts" "serve lib opts name s2 = (e, s')"
proof -
  obtain c s2 where c: "os_do (configure sys name) s1 = (c, s2)" by (rule prod.exhaust)
  obtain a s3 where a: "os_do (Apply os sys name (do_ProxyAddr opts)) s2 = (a, s3)" by (rule prod.exhaust)
  show thesis
    using assms that c a unfolding Driver_session_def c prod.case
    by (cases c; cases "do_AutoDefaultRoute opts"; cases a) simp_all
qed

section \<open>What serves the stack\<close>

locale packet_stack =
  fixes serve :: "'w lib \<Rightarrow> ('h, 'l) DriverOptions \<Rightarrow> string \<Rightarrow> 'w drv \<Rightarrow> run_error \<times> 'w drv"
  assumes serve_log: "serve lib opts name s = (e, s') \<Longrightarrow>
      \<exists>l stk. dr_log s' = dr_log s @ l \<and> res_run (True, False) l = Some (True, stk) \<and> (stk \<longrightarrow> (\<exists>b. e = BuildStack b))"
    and serve_stop: "serve lib opts name s = (CtxErr c, s') \<Longrightarrow>
      \<exists>l ok t. dr_log s' = dr_log s @ l @ [CtxDone, LibCall StackClose ok, Waited t] \<and> t \<le> 2 * second_ns"
    and serve_world: "quiet lib \<Longrightarrow> serve lib opts name s = (e, s') \<Longrightarrow> dr_world s' = dr_world s"
begin

text \<open>The part of \<open>Run\<close> between opening and closing the device.\<close>

lemma routed_log:
  assumes "deferring (cleanupRoutes sys cleanup) (serve lib opts name) s = (e, s')"
  shows "\<exists>l stk. dr_log s' = dr_log s @ l \<and> res_run (True, False) l = Some (True, stk) \<and> (stk \<longrightarrow> (\<exists>b. e = BuildStack b))"
proof -
  obtain s1 where s1: "serve lib opts name s = (e, s1)" "s' = cleanupRoutes sys cleanup s1"
    using assms by (cases "serve lib opts name s") (simp add: deferring_def)
  obtain l stk where "dr_log s1 = dr_log s @ l" "res_run (True, False) l = Some (True, stk)" "stk \<longrightarrow> (\<exists>b. e = BuildStack b)"
    using serve_log [OF s1(1)] by blast
  moreover obtain m where "dr_log s' = dr_log s1 @ [OsCmds m]" using cleanupRoutes_log [of sys cleanup s1] s1(2) by auto
  ultimately show ?thesis by (intro exI [of _ "l @ [OsCmds m]"] exI [of _ stk]) (simp add: res_run_append)
qed

lemma session_log:
  assumes "Driver_session serve os sys configure lib opts name s1 = (e, s')"
  shows "\<exists>l stk. dr_log s' = dr_log s1 @ l \<and> res_run (True, False) l = Some (True, stk) \<and> (stk \<longrightarrow> (\<exists>b. e = BuildStack b))"
  using assms
proof (cases rule: Driver_session_cases)
  case (configure_error ce)
  then show ?thesis using os_do_log [of "configure sys name" s1] by (simp add: ex_bool_eq)
next
  case (route_error re s2)
  then show ?thesis using os_do_log [of "configure sys name" s1] os_do_log [of "Apply os sys name (do_ProxyAddr opts)" s2] by (simp add: ex_bool_eq)
next
  case (routed cleanup s2 s3)
  obtain l stk where "dr_log s' = dr_log s3 @ l" "res_run (True, False) l = Some (True, stk)" "stk \<longrightarrow> (\<exists>b. e = BuildStack b)"
    using routed_log [OF routed(4)] by blast
  then show ?thesis
    using routed(1-3) os_do_log [of "configure sys name" s1] os_do_log [of "Apply os sys name (do_ProxyAddr opts)" s2]
    by (intro exI [of _ "[OsCmds (snd (snd (configure sys name (dr_world s1, [])))), OsCmds (snd (snd (Apply os sys name (do_ProxyAddr opts) (dr_world s2, []))))] @ l"]
      exI [of _ stk]) simp
next
  case (plain s2)
  obtain l stk where "dr_log s' = dr_log s2 @ l" "res_run (True, False) l = Some (True, stk)" "stk \<longrightarrow> (\<exists>b. e = BuildStack b)"
    using serve_log [OF plain(3)] by blast
  then show ?thesis
    using plain(1) os_do_log [of "configure sys name" s1]
    by (intro exI [of _ "[OsCmds (snd (snd (configure sys name (dr_world s1, []))))] @ l"] exI [of _ stk]) simp
qed

lemma Run_releases:
  assumes "Driver_Run serve os sys lib opts s = (e, s')"
  shows "\<exists>l stk. dr_log s' = dr_log s @ l \<and> res_run (False, False) l = Some (False, stk) \<and> (stk \<longrightarrow> (\<exists>b. e = BuildStack b))"
  using assms
proof (cases rule: Driver_Run_cases)
  case not_opened
  then show ?thesis using call_log [of lib "TunOpen (do_TunName opts) (word_of_int (do_MTU opts))" s] by (simp add: ex_bool_eq)
next
  case (opened configure s1 s2 name)
  obtain l stk where "dr_log s2 = dr_log s1 @ l" "res_run (True, False) l = Some (True, stk)" "stk \<longrightarrow> (\<exists>b. e = BuildStack b)"
    using session_log [OF opened(4)] by blast
  then show ?thesis
    using opened(2,5) call_log [of lib "TunOpen (do_TunName opts) (word_of_int (do_MTU opts))" s] call_log [of lib "TunClose name" s2]
    by (intro exI [of _ "[LibCall (TunOpen (do_TunName opts) (word_of_int (do_MTU opts))) True] @ l @
        [LibCall (TunClose name) (fst (call lib (TunClose name) s2))]"] exI [of _ stk]) (simp add: res_run_append)
qed (simp add: ex_bool_eq)

text \<open>The order of a shutdown: the stack is closed first, then the routes are taken back, then the device is
  closed.\<close>

lemma Run_shutdown:
  assumes "Driver_Run serve os sys lib opts s = (CtxErr c, s')"
  shows "\<exists>l name ok t m ok'. dr_log s' = dr_log s @ l @ [CtxDone, LibCall StackClose ok, Waited t] @ m @ [LibCall (TunClose name) ok'] \<and>
    t \<le> 2 * second_ns \<and>
    (if do_AutoDefaultRoute opts then \<exists>w cleanup st'. Apply os sys name (do_ProxyAddr opts) (w, []) = (Inr cleanup, st') \<and>
        OsCmds (snd st') \<in> set l \<and> (\<exists>k. m = [OsCmds k] \<and> map fst k = cleanup)
     else m = [])"
  using assms
proof (cases rule: Driver_Run_cases)
  case (opened configure s1 s2 name)
  have o: "dr_log s1 = dr_log s @ [LibCall (TunOpen (do_TunName opts) (word_of_int (do_MTU opts))) True]"
    using call_log [of lib "TunOpen (do_TunName opts) (word_of_int (do_MTU opts))" s] opened(2) by simp
  have cl: "dr_log s' = dr_log s2 @ [LibCall (TunClose name) (fst (call lib (TunClose name) s2))]"
    using opened(5) by (simp add: call_log)
  from opened(4) show ?thesis
  proof (cases rule: Driver_session_cases)
    case (routed cleanup s3 s4)
    obtain s5 where s5: "serve lib opts name s4 = (CtxErr c, s5)" "s2 = cleanupRoutes sys cleanup s5"
      using routed(4) by (cases "serve lib opts name s4") (simp add: deferring_def)
    obtain l ok t where l: "dr_log s5 = dr_log s4 @ l @ [CtxDone, LibCall StackClose ok, Waited t]" "t \<le> 2 * second_ns"
      using serve_stop [OF s5(1)] by blast
    obtain k where k: "dr_log s2 = dr_log s5 @ [OsCmds k]" "map fst k = cleanup"
      using cleanupRoutes_log [of sys cleanup s5] s5(2) by auto
    obtain st' where a: "Apply os sys name (do_ProxyAddr opts) (dr_world s3, []) = (Inr cleanup, st')"
      using routed(3) os_do_result(1) [of "Apply os sys name (do_ProxyAddr opts)" s3]
      by (cases "Apply os sys name (do_ProxyAddr opts) (dr_world s3, [])") simp
    have "dr_log s3 = dr_log s1 @ [OsCmds (snd (snd (configure sys name (dr_world s1, []))))]" "dr_log s4 = dr_log s3 @ [OsCmds (snd st')]"
      using routed(1,3) a os_do_log [of "configure sys name" s1] os_do_log [of "Apply os sys name (do_ProxyAddr opts)" s3] by simp_all
    with o cl l k have log: "dr_log s' = dr_log s @ ([LibCall (TunOpen (do_TunName opts) (word_of_int (do_MTU opts))) True,
        OsCmds (snd (snd (configure sys name (dr_world s1, [])))), OsCmds (snd st')] @ l) @
        [CtxDone, LibCall StackClose ok, Waited t] @ [OsCmds k] @ [LibCall (TunClose name) (fst (call lib (TunClose name) s2))]"
      by simp
    have "OsCmds (snd st') \<in> set ([LibCall (TunOpen (do_TunName opts) (word_of_int (do_MTU opts))) True,
        OsCmds (snd (snd (configure sys name (dr_world s1, [])))), OsCmds (snd st')] @ l)" by simp
    with log l(2) k(2) a show ?thesis unfolding if_P [OF routed(2)] by blast
  next
    case (plain s3)
    obtain l ok t where l: "dr_log s2 = dr_log s3 @ l @ [CtxDone, LibCall StackClose ok, Waited t]" "t \<le> 2 * second_ns"
      using serve_stop [OF plain(3)] by blast
    have "dr_log s3 = dr_log s1 @ [OsCmds (snd (snd (configure sys name (dr_world s1, []))))]"
      using plain(1) os_do_log [of "configure sys name" s1] by simp
    with o cl l have "dr_log s' = dr_log s @ ([LibCall (TunOpen (do_TunName opts) (word_of_int (do_MTU opts))) True,
        OsCmds (snd (snd (configure sys name (dr_world s1, []))))] @ l) @
        [CtxDone, LibCall StackClose ok, Waited t] @ [] @ [LibCall (TunClose name) (fst (call lib (TunClose name) s2))]"
      by simp
    with l(2) show ?thesis unfolding if_not_P [OF plain(2)] by blast
  qed simp_all
qed simp_all

end

section \<open>The two drivers serve a stack\<close>

text \<open>The log of the calls that need nothing but an open stack.\<close>

lemma call_on_stack:
  assumes "(case c of AddProtocolAddress _ _ _ _ \<Rightarrow> True | SetRouteTable _ \<Rightarrow> True | SetTransportProtocolHandler _ \<Rightarrow> True |
      CreateNIC _ _ \<Rightarrow> True | SetPromiscuousMode _ _ \<Rightarrow> True | SetSpoofing _ _ \<Rightarrow> True | _ \<Rightarrow> False)"
    and "dr_log s = l0 @ l" "res_run (True, False) l = Some (True, True)"
  shows "\<exists>l'. dr_log (snd (call lib c s)) = l0 @ l' \<and> res_run (True, False) l' = Some (True, True)"
  using assms by (intro exI [of _ "l @ [LibCall c (fst (call lib c s))]"]) (cases c; simp add: call_log res_run_append)

definition on_stack :: "drv_event list \<Rightarrow> 'w \<Rightarrow> 'w lib \<Rightarrow> 'w drv \<Rightarrow> bool" where
  "on_stack l0 w lib s \<longleftrightarrow>
     (\<exists>l. dr_log s = l0 @ l \<and> res_run (True, False) l = Some (True, True)) \<and> (quiet lib \<longrightarrow> dr_world s = w)"

lemma on_stack_call:
  assumes "on_stack l0 w lib s"
    and "(case c of AddProtocolAddress _ _ _ _ \<Rightarrow> True | SetRouteTable _ \<Rightarrow> True | SetTransportProtocolHandler _ \<Rightarrow> True |
      CreateNIC _ _ \<Rightarrow> True | SetPromiscuousMode _ _ \<Rightarrow> True | SetSpoofing _ _ \<Rightarrow> True | _ \<Rightarrow> False)"
  shows "on_stack l0 w lib (snd (call lib c s))"
proof -
  have "quiet lib \<longrightarrow> dr_world (snd (call lib c s)) = w"
    using assms quiet_call [of lib c s] by (cases c) (auto simp: on_stack_def)
  moreover have "\<exists>l'. dr_log (snd (call lib c s)) = l0 @ l' \<and> res_run (True, False) l' = Some (True, True)"
    using assms(1) call_on_stack [OF assms(2)] by (auto simp: on_stack_def)
  ultimately show ?thesis by (simp add: on_stack_def)
qed

lemma on_stack_calls [simp]:
  assumes "on_stack l0 w lib s"
  shows "on_stack l0 w lib (snd (call lib (AddProtocolAddress a b c d) s))"
    "on_stack l0 w lib (snd (call lib (SetRouteTable r) s))" "on_stack l0 w lib (snd (call lib (SetTransportProtocolHandler t) s))"
    "on_stack l0 w lib (snd (call lib (CreateNIC i n) s))" "on_stack l0 w lib (snd (call lib (SetPromiscuousMode i v) s))"
    "on_stack l0 w lib (snd (call lib (SetSpoofing i v) s))"
  by (rule on_stack_call [OF assms]; simp)+

text \<open>Once a stack is open, waiting for the context and the deferred close end well.\<close>

lemma stack_closed:
  assumes "on_stack (dr_log s0) (dr_world s0) lib s" "deferring (stopStack lib) (ctxDone lib) s = (e, s')"
  shows "\<exists>l ok t. dr_log s' = dr_log s0 @ l @ [CtxDone, LibCall StackClose ok, Waited t] \<and> t \<le> 2 * second_ns \<and>
      res_run (True, False) (l @ [CtxDone, LibCall StackClose ok, Waited t]) = Some (True, False)"
    "quiet lib \<Longrightarrow> dr_world s' = dr_world s0"
proof -
  have s': "s' = stopStack lib (snd (ctxDone lib s))" using assms(2) by (simp add: deferring_def case_prod_beta)
  obtain l where l: "dr_log s = dr_log s0 @ l" "res_run (True, False) l = Some (True, True)"
    using assms(1) by (auto simp: on_stack_def)
  obtain ok t where "dr_log s' = dr_log s0 @ l @ [CtxDone, LibCall StackClose ok, Waited t]" "t \<le> 2 * second_ns"
    using stopStack_log [of lib "snd (ctxDone lib s)"] l(1) ctxDone_effect(2) [of lib s] by (auto simp: s')
  then show "\<exists>l ok t. dr_log s' = dr_log s0 @ l @ [CtxDone, LibCall StackClose ok, Waited t] \<and> t \<le> 2 * second_ns \<and>
      res_run (True, False) (l @ [CtxDone, LibCall StackClose ok, Waited t]) = Some (True, False)"
    using l(2) by (intro exI [of _ l] exI [of _ ok] exI [of _ t]) (simp add: res_run_append)
  show "dr_world s' = dr_world s0" if "quiet lib"
    using that assms(1) ctxDone_effect(3) [OF that, of s] by (simp add: s' stopStack_world on_stack_def)
qed

lemma gvisor_addresses_on_stack: "on_stack l0 w lib s \<Longrightarrow> on_stack l0 w lib (gvisor_addGatewayAddresses lib s)"
  by (simp add: gvisor_addGatewayAddresses_def case_prod_beta Let_def)

lemma gvisor_serve_cases:
  assumes "gvisor_serve lib opts name s = (e, s')"
  shows "e = CreateStackError \<and> dr_log s' = dr_log s @ [LibCall (CreateStack name) False] \<and> (quiet lib \<longrightarrow> dr_world s' = dr_world s) \<or>
    (\<exists>s1. on_stack (dr_log s) (dr_world s) lib s1 \<and> deferring (stopStack lib) (ctxDone lib) s1 = (e, s'))"
proof -
  obtain ok s1 where c: "call lib (CreateStack name) s = (ok, s1)" by (rule prod.exhaust)
  have l: "dr_log s1 = dr_log s @ [LibCall (CreateStack name) ok]" "quiet lib \<longrightarrow> dr_world s1 = dr_world s"
    using call_log [of lib "CreateStack name" s] quiet_call [of lib "CreateStack name" s] c by auto
  show ?thesis
  proof (cases ok)
    case True
    then have "on_stack (dr_log s) (dr_world s) lib (gvisor_addGatewayAddresses lib s1)"
      by (intro gvisor_addresses_on_stack) (simp add: on_stack_def l)
    moreover have "deferring (stopStack lib) (ctxDone lib) (gvisor_addGatewayAddresses lib s1) = (e, s')"
      using assms True by (simp add: gvisor_serve_def c deferring_def)
    ultimately show ?thesis by blast
  next
    case False
    then show ?thesis using assms l by (simp add: gvisor_serve_def c)
  qed
qed

lemma buildStack_on_stack: "on_stack (dr_log s) (dr_world s) lib (snd (buildStack lib ep v6 s))"
proof -
  define c where "c = StackNew ([ProtoIPv4] @ (if v6 then [ProtoIPv6] else [])) ([ProtoTCP, ProtoUDP] @ [ProtoICMP4] @ (if v6 then [ProtoICMP6] else []))"
  have "on_stack (dr_log s) (dr_world s) lib (snd (call lib c s))"
    using call_log [of lib c s] quiet_call [of lib c s] by (simp add: on_stack_def c_def)
  then show ?thesis
    unfolding buildStack_def Let_def case_prod_beta c_def [symmetric]
    by (simp add: simple_addGatewayAddresses_def registerUDPForwarder_def registerTCPForwarder_def case_prod_beta Let_def)
qed

lemma simple_serve_cases:
  assumes "simple_serve lib opts name s = (e, s')"
  shows "(\<exists>b. e = BuildStack b) \<and> on_stack (dr_log s) (dr_world s) lib s' \<or>
    (\<exists>s1. on_stack (dr_log s) (dr_world s) lib s1 \<and> deferring (stopStack lib) (ctxDone lib) s1 = (e, s'))"
  using assms buildStack_on_stack [of s lib name "do_EnableIPv6 opts"]
  by (auto simp: simple_serve_def split: prod.splits option.splits)

lemma ctx_error_only: "deferring (stopStack lib) (ctxDone lib) s = (e, s') \<Longrightarrow> \<exists>c. e = CtxErr c"
  using ctxDone_effect(1) [of lib s] by (auto simp: deferring_def split: prod.splits)

interpretation gvisor: packet_stack gvisor_serve
proof
  fix lib :: "'w lib" and opts :: "('h, 'l) DriverOptions" and name s e s' c
  { assume "gvisor_serve lib opts name s = (e, s')"
    from gvisor_serve_cases [OF this]
    show "\<exists>l stk. dr_log s' = dr_log s @ l \<and> res_run (True, False) l = Some (True, stk) \<and> (stk \<longrightarrow> (\<exists>b. e = BuildStack b))"
      using stack_closed(1) [of s lib _ e s'] by (fastforce simp: ex_bool_eq)
  }
  { assume "gvisor_serve lib opts name s = (CtxErr c, s')"
    from gvisor_serve_cases [OF this]
    show "\<exists>l ok t. dr_log s' = dr_log s @ l @ [CtxDone, LibCall StackClose ok, Waited t] \<and> t \<le> 2 * second_ns"
      using stack_closed(1) [of s lib _ "CtxErr c" s'] by blast
  }
  { assume "quiet lib" "gvisor_serve lib opts name s = (e, s')"
    with gvisor_serve_cases [OF this(2)] show "dr_world s' = dr_world s"
      using stack_closed(2) [of s lib _ e s'] by blast
  }
qed

interpretation simple: packet_stack simple_serve
proof
  fix lib :: "'w lib" and opts :: "('h, 'l) DriverOptions" and name s e s' c
  { assume "simple_serve lib opts name s = (e, s')"
    from simple_serve_cases [OF this]
    show "\<exists>l stk. dr_log s' = dr_log s @ l \<and> res_run (True, False) l = Some (True, stk) \<and> (stk \<longrightarrow> (\<exists>b. e = BuildStack b))"
      using stack_closed(1) [of s lib _ e s'] by (fastforce simp: ex_bool_eq on_stack_def)
  }
  { assume "simple_serve lib opts name s = (CtxErr c, s')"
    from simple_serve_cases [OF this]
    show "\<exists>l ok t. dr_log s' = dr_log s @ l @ [CtxDone, LibCall StackClose ok, Waited t] \<and> t \<le> 2 * second_ns"
      using stack_closed(1) [of s lib _ "CtxErr c" s'] by blast
  }
  { assume "quiet lib" "simple_serve lib opts name s = (e, s')"
    with simple_serve_cases [OF this(2)] show "dr_world s' = dr_world s"
      using stack_closed(2) [of s lib _ e s'] by (auto simp: on_stack_def)
  }
qed

section \<open>A driver on a platform that takes its routes back\<close>

text \<open>What opening and configuring the device makes of the world, and what is left when it is closed again.\<close>

definition configured_world ::
  "('w sys \<Rightarrow> string \<Rightarrow> 'w st \<Rightarrow> tun_error option \<times> 'w st) \<Rightarrow> 'w sys \<Rightarrow> 'w lib \<Rightarrow> ('h, 'l) DriverOptions \<Rightarrow> 'w \<Rightarrow> 'w" where
  "configured_world configure sys lib opts w =
     (let w1 = snd (lib_exec lib (TunOpen (do_TunName opts) (word_of_int (do_MTU opts))) w)
      in fst (snd (configure sys (lib_devName lib (do_TunName opts) w1) (w1, []))))"

definition footprint ::
  "('w sys \<Rightarrow> string \<Rightarrow> 'w st \<Rightarrow> tun_error option \<times> 'w st) \<Rightarrow> 'w sys \<Rightarrow> 'w lib \<Rightarrow> ('h, 'l) DriverOptions \<Rightarrow> 'w \<Rightarrow> 'w" where
  "footprint configure sys lib opts w =
     (let (ok, w1) = lib_exec lib (TunOpen (do_TunName opts) (word_of_int (do_MTU opts))) w
      in if \<not> ok then w1
         else snd (lib_exec lib (TunClose (lib_devName lib (do_TunName opts) w1)) (configured_world configure sys lib opts w)))"


locale restoring_driver = packet_stack serve + platform_undo os tools leaky
  for serve :: "'w lib \<Rightarrow> ('h, 'l) DriverOptions \<Rightarrow> string \<Rightarrow> 'w drv \<Rightarrow> run_error \<times> 'w drv"
    and os and tools :: "'w sys \<Rightarrow> ('w \<Rightarrow> bool) \<Rightarrow> bool" and leaky
begin

lemma session_restores:
  assumes "Driver_session serve os sys configure lib opts name s1 = (e, s')" "quiet lib" "tools sys ready"
    and "w2 = fst (snd (configure sys name (dr_world s1, [])))" "ready w2" "\<not> (\<exists>r. e = AutoRoute r \<and> leaky r)"
  shows "dr_world s' = w2"
proof -
  have w2: "os_do (configure sys name) s1 = (x, s2) \<Longrightarrow> dr_world s2 = w2" for x s2
    using os_do_result(2) [of "configure sys name" s1] assms(4) by simp
  have ap: "\<exists>st'. Apply os sys name (do_ProxyAddr opts) (w2, []) = (r, st') \<and> dr_world s3 = fst st'"
    if "os_do (configure sys name) s1 = (None, s2)" "os_do (Apply os sys name (do_ProxyAddr opts)) s2 = (r, s3)" for s2 r s3
    using os_do_result [of "Apply os sys name (do_ProxyAddr opts)" s2] w2 [OF that(1)] that(2)
    by (cases "Apply os sys name (do_ProxyAddr opts) (w2, [])") simp
  from assms(1) show ?thesis
  proof (cases rule: Driver_session_cases)
    case (configure_error ce)
    then show ?thesis using w2 by simp
  next
    case (route_error re s2)
    then show ?thesis
      using ap [OF route_error(1,3)] apply_undone [OF assms(3), of "(w2, [])"] assms(5,6) by fastforce
  next
    case (routed cleanup s2 s3)
    obtain st' where a: "Apply os sys name (do_ProxyAddr opts) (w2, []) = (Inr cleanup, st')" "dr_world s3 = fst st'"
      using ap [OF routed(1,3)] by blast
    obtain s4 where "serve lib opts name s3 = (e, s4)" "s' = cleanupRoutes sys cleanup s4"
      using routed(4) by (cases "serve lib opts name s3") (simp add: deferring_def)
    then show ?thesis
      using serve_world [OF assms(2)] a apply_undone [OF assms(3) _ a(1)] assms(5) by (simp add: cleanupRoutes_world)
  next
    case (plain s2)
    then show ?thesis using serve_world [OF assms(2)] w2 by simp
  qed
qed

lemma Run_footprint:
  assumes "Driver_Run serve os sys lib opts s = (e, s')" "quiet lib" "tools sys ready" "Configure os = Some configure"
    and "ready (configured_world configure sys lib opts (dr_world s))" "\<not> (\<exists>r. e = AutoRoute r \<and> leaky r)"
  shows "dr_world s' = footprint configure sys lib opts (dr_world s)"
  using assms(1)
proof (cases rule: Driver_Run_cases)
  case not_built
  then show ?thesis using assms(4) by simp
next
  case not_opened
  then show ?thesis by (auto simp: footprint_def call_def split: prod.splits)
next
  case (opened configure' s1 s2 name)
  have w1: "lib_exec lib (TunOpen (do_TunName opts) (word_of_int (do_MTU opts))) (dr_world s) = (True, dr_world s1)"
    using opened(2) by (auto simp: call_def split: prod.splits)
  have cw: "configured_world configure sys lib opts (dr_world s) = fst (snd (configure sys name (dr_world s1, [])))"
    using opened(3) by (simp add: configured_world_def w1 Let_def)
  have "configure' = configure" using opened(1) assms(4) by simp
  then have "Driver_session serve os sys configure lib opts name s1 = (e, s2)" using opened(4) by simp
  from session_restores [OF this assms(2,3) cw assms(5,6)]
  have "dr_world s2 = configured_world configure sys lib opts (dr_world s)" .
  then show ?thesis using opened(3,5) by (simp add: call_world footprint_def w1)
qed

end

interpretation gvisor_linux: restoring_driver gvisor_serve Linux linux_ready "\<lambda>_. False" ..

interpretation simple_linux: restoring_driver simple_serve Linux linux_ready "\<lambda>_. False" ..

interpretation gvisor_darwin: restoring_driver gvisor_serve Darwin darwin_ready "\<lambda>e. e = AddDefaultIPv4" ..

interpretation simple_darwin: restoring_driver simple_serve Darwin darwin_ready "\<lambda>e. e = AddDefaultIPv4" ..

lemma either_run:
  assumes "Run = gvisor_Run \<or> Run = simple_Run" "Run os sys lib opts s = r"
  obtains "Driver_Run gvisor_serve os sys lib opts s = r" | "Driver_Run simple_serve os sys lib opts s = r"
  using assms by (auto simp: gvisor_Run_def simple_Run_def)

section \<open>Properties\<close>

text \<open>C11. Both drivers release what they acquire, on every path, errors included: of the log of a run, followed
  from nothing open, every step finds the device and the stack as it needs them, the device is closed at
  the end, and the stack is closed too, unless \<open>buildStack\<close> of the simple driver failed: its error paths
  leave the stack it created open.\<close>

theorem drivers_release:
  assumes "Run = gvisor_Run \<or> Run = simple_Run" "Run os sys lib opts s = (e, s')"
  shows "\<exists>l stk. dr_log s' = dr_log s @ l \<and> res_run (False, False) l = Some (False, stk) \<and> (stk \<longrightarrow> (\<exists>b. e = BuildStack b))"
  using assms by (rule either_run) (rule gvisor.Run_releases simple.Run_releases; assumption)+

text \<open>C10. The order of a shutdown, for both drivers: once the context is done the stack is closed, its
  connections are waited for at most two seconds, then the cleanup of the routes runs, exactly the
  commands \<open>Apply\<close> returned, when routes were installed, and the device is closed last.\<close>

theorem drivers_shutdown:
  assumes "Run = gvisor_Run \<or> Run = simple_Run" "Run os sys lib opts s = (CtxErr c, s')"
  shows "\<exists>l name ok t m ok'. dr_log s' = dr_log s @ l @ [CtxDone, LibCall StackClose ok, Waited t] @ m @ [LibCall (TunClose name) ok'] \<and>
    t \<le> 2 * second_ns \<and>
    (if do_AutoDefaultRoute opts then \<exists>w cleanup st'. Apply os sys name (do_ProxyAddr opts) (w, []) = (Inr cleanup, st') \<and>
        OsCmds (snd st') \<in> set l \<and> (\<exists>k. m = [OsCmds k] \<and> map fst k = cleanup)
     else m = [])"
  using assms by (rule either_run) (rule gvisor.Run_shutdown simple.Run_shutdown; assumption)+

text \<open>A run on Linux leaves no trace in the routing tables and the firewall: however it ends, errors included,
  the world after it is the one that opening, configuring and closing the device leaves. The hypotheses
  are what the manuals say of single commands of the tools, that the tables and rules of the program do
  not exist when the routes are installed, and that neither the packet stack nor anyone else changes the
  routes meanwhile.\<close>

theorem linux_run_restores:
  assumes "Run = gvisor_Run \<or> Run = simple_Run" "Run Linux sys lib opts s = (e, s')" "quiet lib" "linux_tools sys fw"
    and "rules_absent fw (configured_world Configure_linux sys lib opts (dr_world s))"
  shows "dr_world s' = footprint Configure_linux sys lib opts (dr_world s)"
proof -
  have ready: "linux_ready sys (rules_absent fw)" using assms(4) by (auto simp: linux_ready_def)
  note foot = gvisor_linux.Run_footprint [OF _ assms(3) ready Configure.simps(1) assms(5)]
    simple_linux.Run_footprint [OF _ assms(3) ready Configure.simps(1) assms(5)]
  show ?thesis using assms(1,2) by (rule either_run) (rule foot; simp)+
qed

text \<open>C12. On Darwin a run takes back its routes and gives the network service the name servers it had, however
  many, for every end of the run but the error of the first half of the default route. The hypotheses
  are what the manuals say of single commands: \<^verbatim>\<open>route delete\<close> takes back a \<^verbatim>\<open>route add\<close>, \<^verbatim>\<open>networksetup\<close> prints the
  name servers of a service one per line, or a sentence when there are none, and sets the ones it is
  given; that every server the system keeps is a word; and that nobody else changes the world meanwhile.\<close>

theorem darwin_run_restores:
  assumes "Run = gvisor_Run \<or> Run = simple_Run" "Run Darwin sys lib opts s = (e, s')" "quiet lib" "darwin_tools sys rs"
    and "servers_ok rs (configured_world Configure_darwin sys lib opts (dr_world s))" "e \<noteq> AutoRoute AddDefaultIPv4"
  shows "dr_world s' = footprint Configure_darwin sys lib opts (dr_world s)"
proof -
  have ready: "darwin_ready sys (servers_ok rs)" using assms(4) by (auto simp: darwin_ready_def)
  have sound: "\<not> (\<exists>r. e = AutoRoute r \<and> r = AddDefaultIPv4)" using assms(6) by blast
  note foot = gvisor_darwin.Run_footprint [OF _ assms(3) ready Configure.simps(2) assms(5) sound]
    simple_darwin.Run_footprint [OF _ assms(3) ready Configure.simps(2) assms(5) sound]
  show ?thesis using assms(1,2) by (rule either_run) (rule foot; assumption)+
qed

section \<open>The stack of the simple driver\<close>

text \<open>The calls that build the stack of the simple driver, in order.\<close>

definition build_calls :: "nat \<Rightarrow> string \<Rightarrow> bool \<Rightarrow> lib_call list" where
  "build_calls nic ep v6 =
     [StackNew (ProtoIPv4 # (if v6 then [ProtoIPv6] else [])) (ProtoTCP # ProtoUDP # ProtoICMP4 # (if v6 then [ProtoICMP6] else [])),
      CreateNIC nic ep, SetPromiscuousMode nic True, SetSpoofing nic True,
      AddProtocolAddress nic ProtoIPv4 [198, 18, 0, 1] 30] @
     (if v6 then [AddProtocolAddress nic ProtoIPv6 [0xfd, 0xfe, 0xdc, 0xba, 0x98, 0x76, 0, 0, 0, 0, 0, 0, 0, 0, 0, 1] 126] else []) @
     [SetRouteTable ((ProtoIPv4, nic) # (if v6 then [(ProtoIPv6, nic)] else [])),
      SetTransportProtocolHandler (TCPForwarder (2 ^ 20) 512), SetTransportProtocolHandler UDPForwarder]"

fun build_reached :: "build_error option \<Rightarrow> nat \<Rightarrow> nat" where
  "build_reached None n = n"
| "build_reached (Some CreateNICError) n = 2"
| "build_reached (Some PromiscuousError) n = 3"
| "build_reached (Some SpoofingError) n = 4"

lemma gateway_bytes:
  "As4 GatewayIPv4 = [198, 18, 0, 1]"
  "As16 GatewayIPv6 = [0xfd, 0xfe, 0xdc, 0xba, 0x98, 0x76, 0, 0, 0, 0, 0, 0, 0, 0, 0, 1]"
  "pfx_bits PrefixIPv4 = 30" "pfx_bits PrefixIPv6 = 126"
  by (simp_all add: As4_def As16_def v4_bytes_def v6_bytes_def v4byte_def v6byte_def upt_rec)

text \<open>A list of calls one after the other.\<close>

fun call_each :: "'w lib \<Rightarrow> lib_call list \<Rightarrow> 'w drv \<Rightarrow> 'w drv" where
  "call_each lib [] s = s"
| "call_each lib (c # cs) s = call_each lib cs (snd (call lib c s))"

lemma call_each_log: "\<exists>oks. length oks = length cs \<and> dr_log (call_each lib cs s) = dr_log s @ map2 LibCall cs oks"
proof (induction cs arbitrary: s)
  case (Cons c cs)
  obtain oks where "length oks = length cs" "dr_log (call_each lib cs (snd (call lib c s))) = dr_log (snd (call lib c s)) @ map2 LibCall cs oks"
    using Cons by blast
  then show ?case by (intro exI [of _ "fst (call lib c s) # oks"]) (simp add: call_log)
qed simp

text \<open>The stages of \<open>buildStack\<close>: the three calls whose failure ends it, and the rest.\<close>

lemma buildStack_stages:
  obtains nic a b c d s2 s3 s4 s8 where
    "buildStack lib ep v6 s =
       (if \<not> b then (Some CreateNICError, s2) else if \<not> c then (Some PromiscuousError, s3)
        else if \<not> d then (Some SpoofingError, s4) else (None, s8))"
    "dr_log s2 = dr_log s @ [LibCall (hd (build_calls nic ep v6)) a, LibCall (CreateNIC nic ep) b]"
    "dr_log s3 = dr_log s2 @ [LibCall (SetPromiscuousMode nic True) c]" "dr_log s4 = dr_log s3 @ [LibCall (SetSpoofing nic True) d]"
    "b \<and> c \<and> d \<longrightarrow> s8 = call_each lib (drop 4 (build_calls nic ep v6)) s4"
proof -
  define s1 where "s1 = snd (call lib (hd (build_calls 0 ep v6)) s)"
  define nic where "nic = lib_NextNICID lib (dr_world s1)"
  define s2 where "s2 = snd (call lib (CreateNIC nic ep) s1)"
  define s3 where "s3 = snd (call lib (SetPromiscuousMode nic True) s2)"
  define s4 where "s4 = snd (call lib (SetSpoofing nic True) s3)"
  define s8 where "s8 = snd (buildStack lib ep v6 s)"
  let ?a = "fst (call lib (hd (build_calls 0 ep v6)) s)" and ?b = "fst (call lib (CreateNIC nic ep) s1)"
    and ?c = "fst (call lib (SetPromiscuousMode nic True) s2)" and ?d = "fst (call lib (SetSpoofing nic True) s3)"
  have "buildStack lib ep v6 s =
      (if \<not> ?b then (Some CreateNICError, s2) else if \<not> ?c then (Some PromiscuousError, s3)
       else if \<not> ?d then (Some SpoofingError, s4) else (None, s8))"
    unfolding s8_def s4_def s3_def s2_def nic_def s1_def
    by (simp add: buildStack_def build_calls_def case_prod_beta Let_def)
  moreover have "dr_log s2 = dr_log s @ [LibCall (hd (build_calls nic ep v6)) ?a, LibCall (CreateNIC nic ep) ?b]"
    by (simp add: s1_def s2_def call_log) (simp add: build_calls_def)
  moreover have "dr_log s3 = dr_log s2 @ [LibCall (SetPromiscuousMode nic True) ?c]" "dr_log s4 = dr_log s3 @ [LibCall (SetSpoofing nic True) ?d]"
    by (simp_all add: s3_def s4_def call_log)
  moreover have "?b \<and> ?c \<and> ?d \<longrightarrow> s8 = call_each lib (drop 4 (build_calls nic ep v6)) s4"
    unfolding s8_def s4_def s3_def s2_def nic_def s1_def buildStack_def simple_addGatewayAddresses_def gateway_bytes build_calls_def
    by (simp add: registerUDPForwarder_def registerTCPForwarder_def tcpWindowSize_def tcpMaxConnAttempts_def case_prod_beta Let_def)
  ultimately show thesis by (rule that)
qed

text \<open>C31. The stack of the simple driver: \<open>buildStack\<close> makes the listed calls in this order, with the gateway's
  addresses and prefix lengths bound to the interface, and stops after the first of the three mandatory
  calls that fails, which its error names; an address that cannot be bound is not an error.\<close>

theorem buildStack_calls:
  "\<exists>nic oks. let calls = build_calls nic ep v6; n = build_reached (fst (buildStack lib ep v6 s)) (length calls) in
     length oks = n \<and> dr_log (snd (buildStack lib ep v6 s)) = dr_log s @ map2 LibCall (take n calls) oks \<and>
     (case fst (buildStack lib ep v6 s) of None \<Rightarrow> oks ! 1 \<and> oks ! 2 \<and> oks ! 3 | Some e \<Rightarrow> \<not> last oks)"
proof -
  obtain nic a b c d s2 s3 s4 s8 where build: "buildStack lib ep v6 s =
      (if \<not> b then (Some CreateNICError, s2) else if \<not> c then (Some PromiscuousError, s3)
       else if \<not> d then (Some SpoofingError, s4) else (None, s8))"
    and log: "dr_log s2 = dr_log s @ [LibCall (hd (build_calls nic ep v6)) a, LibCall (CreateNIC nic ep) b]"
      "dr_log s3 = dr_log s2 @ [LibCall (SetPromiscuousMode nic True) c]" "dr_log s4 = dr_log s3 @ [LibCall (SetSpoofing nic True) d]"
    and tail: "b \<and> c \<and> d \<longrightarrow> s8 = call_each lib (drop 4 (build_calls nic ep v6)) s4"
    by (rule buildStack_stages [of lib ep v6 s]) blast
  obtain oks where oks: "length oks = length (drop 4 (build_calls nic ep v6))"
      "b \<and> c \<and> d \<longrightarrow> dr_log s8 = dr_log s4 @ map2 LibCall (drop 4 (build_calls nic ep v6)) oks"
    using call_each_log [of "drop 4 (build_calls nic ep v6)" lib s4] tail by auto
  define full where "full = [a, b, c, d] @ oks"
  define n where "n = build_reached (fst (buildStack lib ep v6 s)) (length (build_calls nic ep v6))"
  have len: "length full = length (build_calls nic ep v6)" "4 \<le> length full" using oks(1) by (simp_all add: full_def build_calls_def)
  have "map2 LibCall (build_calls nic ep v6) full = [LibCall (hd (build_calls nic ep v6)) a, LibCall (CreateNIC nic ep) b,
      LibCall (SetPromiscuousMode nic True) c, LibCall (SetSpoofing nic True) d] @ map2 LibCall (drop 4 (build_calls nic ep v6)) oks"
    by (simp add: build_calls_def full_def)
  then have cut: "map2 LibCall (take k (build_calls nic ep v6)) (take k full) = take k ([LibCall (hd (build_calls nic ep v6)) a, LibCall (CreateNIC nic ep) b,
      LibCall (SetPromiscuousMode nic True) c, LibCall (SetSpoofing nic True) d] @ map2 LibCall (drop 4 (build_calls nic ep v6)) oks)" for k
    by (metis take_map take_zip)
  have "length (take n full) = n \<and> dr_log (snd (buildStack lib ep v6 s)) = dr_log s @ map2 LibCall (take n (build_calls nic ep v6)) (take n full) \<and>
     (case fst (buildStack lib ep v6 s) of None \<Rightarrow> take n full ! 1 \<and> take n full ! 2 \<and> take n full ! 3 | Some e \<Rightarrow> \<not> last (take n full))"
  proof (cases "b \<and> c \<and> d")
    case True
    then have n: "n = length full" by (simp add: n_def build len)
    with True oks log show ?thesis unfolding cut by (simp add: build full_def)
  next
    case False
    then have "n \<le> 4" by (auto simp: n_def build)
    with False len show ?thesis unfolding cut by (auto simp: n_def build log full_def)
  qed
  then show ?thesis unfolding Let_def n_def by blast
qed

text \<open>A request of a TCP connection is completed exactly once, last, and with a reset exactly when its endpoint
  could not be created; the handler sees the connection exactly when the endpoint was created and the
  keepalive options were set, and otherwise the endpoint that was created is closed.\<close>

theorem tcp_forward_complete:
  "\<exists>evs. tcp_forward h env eid = evs @ [Complete (\<not> ep_create env)] \<and> (\<forall>b. Complete b \<notin> set evs) \<and>
     (Handled (Handler_HandleTCP h eid) \<in> set evs \<longleftrightarrow> ep_create env \<and> ep_idle env \<and> ep_interval env \<and> ep_count env) \<and>
     (EpClose \<in> set evs \<longleftrightarrow> ep_create env \<and> \<not> (ep_idle env \<and> ep_interval env \<and> ep_count env)) \<and>
     (Handled (Handler_HandleTCP h eid) \<in> set evs \<longleftrightarrow>
        evs = [CreateEndpoint True, SetKeepAlive True, SetIdle (60 * second_ns) True, SetInterval (30 * second_ns) True, SetCount 9 True,
               Handled (Handler_HandleTCP h eid)])"
  by (cases "ep_create env"; cases "ep_idle env"; cases "ep_interval env"; cases "ep_count env")
    (simp_all add: tcp_forward_def setSocketOptions_def tcpKeepaliveIdle_def tcpKeepaliveInterval_def append_eq_conv_conj ex_simps)

section \<open>Witnesses\<close>

text \<open>Libraries whose calls all succeed and leave the world alone, with one interface, and the options of a run
  that installs routes.\<close>

definition demo_lib :: "'w lib" where
  "demo_lib = \<lparr>lib_devName = (\<lambda>n w. n), lib_exec = (\<lambda>c w. (True, w)), lib_NextNICID = (\<lambda>w. 1), lib_NICInfo = (\<lambda>w. [1]),
     lib_Wait = (\<lambda>w. None), lib_untilDone = (\<lambda>w. w), lib_ctxErr = (\<lambda>w. Canceled)\<rparr>"

definition demo_opts :: "(unit, unit) DriverOptions" where
  "demo_opts = \<lparr>do_TunName = ''tun0'', do_MTU = 1500, do_Handler = Some (), do_Logger = None, do_EnableIPv6 = True,
     do_AutoDefaultRoute = True, do_ProxyAddr = ''p:1''\<rparr>"

lemma demo_lib_quiet: "quiet demo_lib"
  by (simp add: quiet_def demo_lib_def split: lib_call.split)

lemma demo_call: "call demo_lib c s = (True, s\<lparr>dr_log := dr_log s @ [LibCall c True]\<rparr>)"
  by (simp add: call_def demo_lib_def)

lemma demo_serve: "fst (gvisor_serve demo_lib opts name s) = CtxErr Canceled"
  by (simp add: gvisor_serve_def demo_call deferring_def case_prod_beta ctxDone_def Let_def) (simp add: demo_lib_def)

lemma demo_session:
  assumes "fst (configure sys name (dr_world s1, [])) = None" "fst (snd (configure sys name (dr_world s1, []))) = w"
    and "fst (Apply os sys name (do_ProxyAddr opts) (w, [])) = Inr cleanup"
  shows "fst (Driver_session gvisor_serve os sys configure demo_lib opts name s1) = CtxErr Canceled"
proof -
  obtain c s2 where c: "os_do (configure sys name) s1 = (c, s2)" by (rule prod.exhaust)
  have s2: "c = None" "dr_world s2 = w" using c assms(1,2) os_do_result [of "configure sys name" s1] by simp_all
  obtain a s3 where a: "os_do (Apply os sys name (do_ProxyAddr opts)) s2 = (a, s3)" by (rule prod.exhaust)
  then have "a = Inr cleanup" using assms(3) os_do_result(1) [of "Apply os sys name (do_ProxyAddr opts)" s2] s2 by simp
  then show ?thesis by (simp add: Driver_session_def c s2 a demo_serve deferring_def case_prod_beta)
qed

lemma demo_Run:
  assumes "Configure os = Some configure" "fst (configure sys (do_TunName opts) (dr_world s, [])) = None"
    and "fst (snd (configure sys (do_TunName opts) (dr_world s, []))) = w" "fst (Apply os sys (do_TunName opts) (do_ProxyAddr opts) (w, [])) = Inr cleanup"
  shows "fst (gvisor_Run os sys demo_lib opts s) = CtxErr Canceled"
proof -
  have n: "lib_devName demo_lib n w' = n" for n and w' :: 'a by (simp add: demo_lib_def)
  show ?thesis
    using demo_session [of configure sys "do_TunName opts" "s\<lparr>dr_log := dr_log s @ [LibCall (TunOpen (do_TunName opts) (word_of_int (do_MTU opts))) True]\<rparr>" w os opts cleanup]
    by (simp add: gvisor_Run_def Driver_Run_def assms demo_call n deferring_def case_prod_beta Let_def)
qed

lemma demo_linux_configured:
  "fst (Configure_linux (demo_linux progs) name (w, l)) = None" "fst (snd (Configure_linux (demo_linux progs) name (w, l))) = w"
  by (simp_all add: Configure_linux_def demo_linux_steps demo_linux_exec_def demo_ip Let_def split: prod.split)

lemma demo_linux_gvisor:
  "\<exists>s'. gvisor_Run Linux (demo_linux [''iptables'']) demo_lib demo_opts \<lparr>dr_world = demo_start, dr_log = []\<rparr> = (CtxErr Canceled, s')"
proof -
  obtain cleanup where "fst (Apply_linux (demo_linux [''iptables'']) ''tun0'' ''p:1'' (demo_start, [])) = Inr cleanup"
    using demo_linux_iptables by (metis fst_conv)
  then have "fst (gvisor_Run Linux (demo_linux [''iptables'']) demo_lib demo_opts \<lparr>dr_world = demo_start, dr_log = []\<rparr>) = CtxErr Canceled"
    by (intro demo_Run [OF Configure.simps(1)]) (simp_all add: demo_opts_def demo_linux_configured)
  then show ?thesis by (metis prod.collapse)
qed

theorem drivers_release_witness:
  "\<exists>s' l. gvisor_Run Linux (demo_linux [''iptables'']) demo_lib demo_opts \<lparr>dr_world = demo_start, dr_log = []\<rparr> = (CtxErr Canceled, s') \<and>
    dr_log s' = l \<and> res_run (False, False) l = Some (False, False)"
proof -
  obtain s' where r: "gvisor_Run Linux (demo_linux [''iptables'']) demo_lib demo_opts \<lparr>dr_world = demo_start, dr_log = []\<rparr> = (CtxErr Canceled, s')"
    using demo_linux_gvisor by blast
  from drivers_release [OF disjI1 [OF refl] r] r show ?thesis by auto
qed

theorem drivers_shutdown_witness:
  "\<exists>s' l name ok t k ok'. gvisor_Run Linux (demo_linux [''iptables'']) demo_lib demo_opts \<lparr>dr_world = demo_start, dr_log = []\<rparr> = (CtxErr Canceled, s') \<and>
    dr_log s' = l @ [CtxDone, LibCall StackClose ok, Waited t, OsCmds k, LibCall (TunClose name) ok']"
proof -
  obtain s' where r: "gvisor_Run Linux (demo_linux [''iptables'']) demo_lib demo_opts \<lparr>dr_world = demo_start, dr_log = []\<rparr> = (CtxErr Canceled, s')"
    using demo_linux_gvisor by blast
  have "do_AutoDefaultRoute demo_opts" by (simp add: demo_opts_def)
  with drivers_shutdown [OF disjI1 [OF refl] r] r show ?thesis by force
qed

lemma demo_footprint:
  "fst (snd (configure sys (do_TunName opts) (w, []))) = w \<Longrightarrow>
    configured_world configure sys demo_lib opts w = w \<and> footprint configure sys demo_lib opts w = w"
  by (simp add: configured_world_def footprint_def demo_lib_def)

theorem linux_run_restores_witness:
  "\<exists>s'. gvisor_Run Linux (demo_linux [''iptables'']) demo_lib demo_opts \<lparr>dr_world = demo_start, dr_log = []\<rparr> = (CtxErr Canceled, s') \<and>
     dr_world s' = demo_start"
proof -
  obtain s' where r: "gvisor_Run Linux (demo_linux [''iptables'']) demo_lib demo_opts \<lparr>dr_world = demo_start, dr_log = []\<rparr> = (CtxErr Canceled, s')"
    using demo_linux_gvisor by blast
  have "configured_world Configure_linux (demo_linux [''iptables'']) demo_lib demo_opts demo_start = demo_start \<and>
      footprint Configure_linux (demo_linux [''iptables'']) demo_lib demo_opts demo_start = demo_start"
    by (rule demo_footprint) (rule demo_linux_configured(2))
  with linux_run_restores [OF disjI1 [OF refl] r demo_lib_quiet demo_linux_tools] r demo_rules_absent show ?thesis by simp
qed

lemma demo_darwin_configured:
  "fst (Configure_darwin (demo_darwin b) name (w, l)) = None" "fst (snd (Configure_darwin (demo_darwin b) name (w, l))) = w"
  by (simp_all add: Configure_darwin_def demo_darwin_steps demo_darwin_exec_def Let_def)

lemma demo_darwin_run_tun0: "\<exists>cleanup. fst (Apply_darwin (demo_darwin False) ''tun0'' ''p:1'' (demo_mac_start, [])) = Inr cleanup"
proof -
  have "Apply_darwin sys t p st = Apply_darwin sys t' p st" for sys :: "'w sys" and t t' p st by (simp add: Apply_darwin_def)
  then show ?thesis using demo_darwin_run by (metis fst_conv)
qed

theorem darwin_run_restores_witness:
  "\<exists>s'. gvisor_Run Darwin (demo_darwin False) demo_lib demo_opts \<lparr>dr_world = demo_mac_start, dr_log = []\<rparr> = (CtxErr Canceled, s') \<and>
     dr_world s' = demo_mac_start \<and> snd (dr_world s') ''Wi-Fi'' = [''10.0.0.1'', ''10.0.0.2'']"
proof -
  let ?s = "\<lparr>dr_world = demo_mac_start, dr_log = []\<rparr> :: demo_mac drv"
  obtain cleanup where "fst (Apply_darwin (demo_darwin False) ''tun0'' ''p:1'' (demo_mac_start, [])) = Inr cleanup"
    using demo_darwin_run_tun0 by blast
  then have "fst (gvisor_Run Darwin (demo_darwin False) demo_lib demo_opts ?s) = CtxErr Canceled"
    by (intro demo_Run [OF Configure.simps(2)]) (simp_all add: demo_opts_def demo_darwin_configured)
  then obtain s' where r: "gvisor_Run Darwin (demo_darwin False) demo_lib demo_opts ?s = (CtxErr Canceled, s')"
    by (metis prod.collapse)
  have "configured_world Configure_darwin (demo_darwin False) demo_lib demo_opts demo_mac_start = demo_mac_start \<and>
      footprint Configure_darwin (demo_darwin False) demo_lib demo_opts demo_mac_start = demo_mac_start"
    by (rule demo_footprint) (rule demo_darwin_configured(2))
  with darwin_run_restores [OF disjI1 [OF refl] r demo_lib_quiet demo_darwin_tools] r demo_servers_ok
  have "dr_world s' = demo_mac_start" by simp
  with r show ?thesis by (simp add: demo_mac_start_def)
qed

end
