(* ===== verification/App_Runner.thy ===== *)
theory App_Runner
  imports Go_Url Proxy_Chain Nano_Config Nano_Logger Stack_Driver
begin

text \<open>
  Package \<^verbatim>\<open>internal/app\<close> and \<open>main\<close> of \<^verbatim>\<open>cmd/nanotun\<close>: the wiring of the components. The proxies and the
  tunnel of tun2socks are parameters; what the program does with the tunnel is in the log, with the
  objects it hands over, and so is the run of the driver.
\<close>

section \<open>The upstream proxy\<close>

datatype proxy_error = ParseProxy | UnsupportedScheme string | Socks5Error string

definition buildProxy :: "(string \<Rightarrow> string \<Rightarrow> string \<Rightarrow> string + 'x) \<Rightarrow> string \<Rightarrow> proxy_error + 'x" where
  "buildProxy NewSocks5 raw =
     (let raw' = (if \<not> Contains raw ''://'' then ''socks5://'' @ raw else raw) in
      case url_Parse raw' of
        None \<Rightarrow> Inl ParseProxy
      | Some u \<Rightarrow>
          let scheme = ToLower (url_Scheme u);
              addr = url_Host u;
              (user, pass) = url_User u
          in if scheme = ''socks5'' \<or> scheme = ''socks5h'' then
               (let addr' = (if addr = [] then url_Path u else addr) in
                case NewSocks5 addr' user pass of Inl e \<Rightarrow> Inl (Socks5Error e) | Inr p \<Rightarrow> Inr p)
             else Inl (UnsupportedScheme scheme))"

section \<open>The driver\<close>

datatype 'l Driver = GVisorDriver "(Handler, 'l) DriverOptions" | SimpleDriver "(Handler, 'l) DriverOptions"

datatype app_error =
    BuildProxy proxy_error
  | HandlerRequired
  | UnsupportedStackMode string
  | DriverError run_error

text \<open>The options of the gVisor driver have no switch for IPv6.\<close>

definition createDriver :: "'l \<Rightarrow> Runtime \<Rightarrow> Handler \<Rightarrow> 'l \<Rightarrow> app_error + 'l Driver" where
  "createDriver slogDefault cfg handler log =
     (let opts = \<lparr>do_TunName = rt_TunName cfg, do_MTU = rt_MTU cfg, do_Handler = Some handler, do_Logger = Some log,
                  do_EnableIPv6 = True, do_AutoDefaultRoute = rt_AutoDefaultRoute cfg, do_ProxyAddr = rt_Proxy cfg\<rparr>
      in if rt_StackMode cfg = StackModeGVisor then
           (case Driver_New slogDefault opts of None \<Rightarrow> Inl HandlerRequired | Some o' \<Rightarrow> Inr (GVisorDriver o'))
         else if rt_StackMode cfg = StackModeSimple then
           (case Driver_New slogDefault opts of None \<Rightarrow> Inl HandlerRequired | Some o' \<Rightarrow> Inr (SimpleDriver o'))
         else Inl (UnsupportedStackMode (rt_StackMode cfg)))"

fun run_driver :: "GOOS \<Rightarrow> 'w sys \<Rightarrow> 'w lib \<Rightarrow> 'l Driver \<Rightarrow> 'w drv \<Rightarrow> run_error \<times> 'w drv" where
  "run_driver os sys lib (GVisorDriver opts) s = gvisor_Run os sys lib opts s"
| "run_driver os sys lib (SimpleDriver opts) s = simple_Run os sys lib opts s"

section \<open>Run\<close>

datatype ('c, 'p, 'l) app_event =
    MatcherStarted Matcher
  | TunnelNew "('c, 'p, Matcher option) Chain"
  | SetUDPTimeout duration
  | ProcessAsync
  | DriverRan "'l Driver" "drv_event list"
  | TunnelClose

text \<open>The nil pointer that \<open>exclude.New\<close> may return is stored in an interface, so the matcher of the chain is
  never the nil interface.\<close>

definition App_Run ::
  "GOOS \<Rightarrow> 'w sys \<Rightarrow> 'w lib \<Rightarrow> (string \<Rightarrow> string \<Rightarrow> string \<Rightarrow> string + ('c, 'p) Proxy) \<Rightarrow> ('c, 'p) Proxy \<Rightarrow> 'l \<Rightarrow>
   Runtime \<Rightarrow> 'l \<Rightarrow> 'w \<Rightarrow> app_error \<times> 'w \<times> ('c, 'p, 'l) app_event list" where
  "App_Run os sys lib NewSocks5 NewDirect slogDefault cfg log w =
     (case buildProxy NewSocks5 (rt_Proxy cfg) of
        Inl e \<Rightarrow> (BuildProxy e, w, [])
      | Inr upstream \<Rightarrow>
          let matcher = Matcher_New (rt_ExcludedProcesses cfg) (rt_ExcludeRefresh cfg);
              l1 = (case matcher of None \<Rightarrow> [] | Some m \<Rightarrow> [MatcherStarted m]);
              chain = Chain_New NewDirect upstream \<lparr>op_Matcher = Some matcher, op_ExcludedPrefixes = rt_ExcludedIPs cfg\<rparr>;
              l2 = l1 @ [TunnelNew chain, SetUDPTimeout (rt_UDPTimeout cfg), ProcessAsync];
              gwHandler = Handler_New (rt_DNS cfg)
          in case createDriver slogDefault cfg gwHandler log of
               Inl e \<Rightarrow> (e, w, l2 @ [TunnelClose])
             | Inr driver \<Rightarrow>
                 let (e, s) = run_driver os sys lib driver \<lparr>dr_world = w, dr_log = []\<rparr>
                 in (DriverError e, dr_world s, l2 @ [DriverRan driver (dr_log s), TunnelClose]))"

section \<open>main\<close>

text \<open>The exit code, the world, the logger and the log of the run.\<close>

definition nanotun_main ::
  "GOOS \<Rightarrow> 'w sys \<Rightarrow> 'w lib \<Rightarrow> (string \<Rightarrow> string \<Rightarrow> string \<Rightarrow> string + ('c, 'p) Proxy) \<Rightarrow> ('c, 'p) Proxy \<Rightarrow>
   (string \<Rightarrow> string + bytes) \<Rightarrow> (bytes \<Rightarrow> string + Config) \<Rightarrow> (string \<Rightarrow> bool) \<Rightarrow> Flags \<Rightarrow> 'w \<Rightarrow>
   nat \<times> 'w \<times> LoggerState \<times> ('c, 'p, Logger) app_event list" where
  "nanotun_main os sys lib NewSocks5 NewDirect readFile unmarshal mkdir_ok fl w =
     (case loadRuntimeConfig readFile unmarshal fl of
        Inl e \<Rightarrow> (1, w, logger_init, [])
      | Inr cfg \<Rightarrow>
          let ls = SetupWithDir mkdir_ok (rt_LogLevel cfg) (rt_LogDir cfg) logger_init;
              (err, w', l) = App_Run os sys lib NewSocks5 NewDirect (L logger_init) cfg (L ls) w
          in ((if err \<noteq> DriverError (CtxErr Canceled) then 1 else 0), w', ls, l))"

section \<open>Addresses of proxies\<close>

text \<open>Host names and user names without special bytes, and the words that can be a scheme.\<close>

definition plain_byte :: "char \<Rightarrow> bool" where
  "plain_byte c \<longleftrightarrow> is_alnum c \<or> c \<in> {CHR ''-'', CHR ''.'', CHR ''_''}"

definition scheme_word :: "string \<Rightarrow> bool" where
  "scheme_word w \<longleftrightarrow> w \<noteq> [] \<and> is_alnum (hd w) \<and> \<not> is_digit (hd w) \<and> list_all (\<lambda>c. is_alnum c \<or> c \<in> {CHR ''+'', CHR ''-'', CHR ''.''}) w"

lemma plain_byte_not:
  "\<not> plain_byte (CHR '':'')" "\<not> plain_byte (CHR ''/'')" "\<not> plain_byte (CHR 0x40)" "\<not> plain_byte (CHR ''['')"
  "\<not> plain_byte (CHR '']'')" "\<not> plain_byte (CHR 0x23)" "\<not> plain_byte (CHR 0x3F)" "\<not> plain_byte (CHR 0x25)"
  by (simp_all add: plain_byte_def is_alnum_def)

lemma plain_byte_ok: "plain_byte c \<Longrightarrow> byte_ok mode c" "plain_byte c \<Longrightarrow> \<not> is_ctl c"
  by (cases mode; auto simp: plain_byte_def host_byte_def) (auto simp: plain_byte_def is_ctl_def is_alnum_def Let_def)

lemma digit_plain: "is_digit c \<Longrightarrow> plain_byte c"
  by (simp add: plain_byte_def is_alnum_def is_digit_def Let_def)

lemma plain_notin:
  assumes "list_all plain_byte s" "\<not> plain_byte c"
  shows "c \<notin> set s"
  using assms by (auto simp: list_all_iff)

lemma unescape_plain_text: "list_all plain_byte s \<Longrightarrow> unescape mode s = Some s"
  using plain_notin [OF _ plain_byte_not(8)] by (intro unescape_same) (auto simp: list_all_iff plain_byte_ok)

lemma unescape_append_plain:
  "list_all plain_byte s \<Longrightarrow> unescape mode (s @ t) = map_option (\<lambda>r. s @ r) (unescape mode t)"
proof (induction s)
  case (Cons a s)
  then have "a \<noteq> CHR 0x25" "byte_ok mode a" using plain_byte_not(8) plain_byte_ok(1) by auto
  with Cons show ?case by (simp add: option.map_comp comp_def)
qed (cases "unescape mode t"; simp)

lemma parseHost_plain:
  assumes "list_all plain_byte host" "list_all is_digit port"
  shows "parseHost (host @ CHR '':'' # port) = Some (host @ CHR '':'' # port)"
proof -
  have p: "list_all plain_byte port" using assms(2) digit_plain by (auto simp: list_all_iff)
  have "LastIndexByte (host @ CHR '':'' # port) (CHR ''['') = None"
    using plain_notin [OF assms(1) plain_byte_not(4)] plain_notin [OF p plain_byte_not(4)] by (simp add: LastIndexByte_none)
  moreover have "LastIndexByte (host @ CHR '':'' # port) (CHR '':'') = Some (length host)"
    using plain_notin [OF p plain_byte_not(1)] by (rule LastIndexByte_append)
  moreover have "unescape EncHost (host @ CHR '':'' # port) = Some (host @ CHR '':'' # port)"
    using assms(1) unescape_plain_text [OF p, of EncHost] by (simp add: unescape_append_plain host_byte_def)
  ultimately show ?thesis using assms(2) by (simp add: parseHost_def validOptionalPort_def)
qed

lemma parse_userinfo_plain:
  assumes "list_all plain_byte user" "list_all plain_byte pass"
  shows "parse_userinfo (user @ CHR '':'' # pass) = Some (user, pass)"
proof -
  have "validUserinfo (user @ CHR '':'' # pass)"
    using assms by (auto simp: validUserinfo_def plain_byte_def list_all_iff)
  then show ?thesis
    using IndexByte_append [OF plain_notin [OF assms(1) plain_byte_not(1)]] unescape_plain_text [OF assms(1)] unescape_plain_text [OF assms(2)]
    by (simp add: parse_userinfo_def)
qed

lemma parseAuthority_plain:
  assumes "list_all plain_byte host" "list_all is_digit port"
  shows "parseAuthority (host @ CHR '':'' # port) = Some (([], []), host @ CHR '':'' # port)"
    "list_all plain_byte user \<Longrightarrow> list_all plain_byte pass \<Longrightarrow>
       parseAuthority (user @ CHR '':'' # pass @ CHR 0x40 # host @ CHR '':'' # port) = Some ((user, pass), host @ CHR '':'' # port)"
proof -
  have p: "list_all plain_byte port" using assms(2) digit_plain by (auto simp: list_all_iff)
  have at: "CHR 0x40 \<notin> set (host @ CHR '':'' # port)"
    using plain_notin [OF assms(1) plain_byte_not(3)] plain_notin [OF p plain_byte_not(3)] by simp
  then show "parseAuthority (host @ CHR '':'' # port) = Some (([], []), host @ CHR '':'' # port)"
    using parseHost_plain [OF assms] LastIndexByte_none [of "host @ CHR '':'' # port" "CHR 0x40"] by (simp add: parseAuthority_def)
  assume u: "list_all plain_byte user" "list_all plain_byte pass"
  have "LastIndexByte ((user @ CHR '':'' # pass) @ CHR 0x40 # host @ CHR '':'' # port) (CHR 0x40) = Some (length (user @ CHR '':'' # pass))"
    using at by (rule LastIndexByte_append)
  then show "parseAuthority (user @ CHR '':'' # pass @ CHR 0x40 # host @ CHR '':'' # port) = Some ((user, pass), host @ CHR '':'' # port)"
    using parseHost_plain [OF assms] parse_userinfo_plain [OF u] by (simp add: parseAuthority_def)
qed

text \<open>A URL of a scheme and an authority.\<close>

lemma url_Parse_authority:
  assumes w: "scheme_word scheme" and a: "parseAuthority authority = Some (user, host)"
    and safe: "list_all (\<lambda>c. plain_byte c \<or> c = CHR '':'' \<or> c = CHR 0x40) authority"
  shows "url_Parse (scheme @ ''://'' @ authority) =
    Some \<lparr>url_Scheme = ToLower scheme, url_User = user, url_Host = host, url_Path = []\<rparr>"
proof -
  let ?u = "scheme @ ''://'' @ authority"
  obtain c cs where s: "scheme = c # cs" "is_alnum c" "\<not> is_digit c" "list_all (\<lambda>c. is_alnum c \<or> c \<in> {CHR ''+'', CHR ''-'', CHR ''.''}) cs"
    using w by (cases scheme) (auto simp: scheme_word_def)
  have sb: "list_all (\<lambda>c. plain_byte c \<or> c = CHR ''+'') scheme" using w by (auto simp: scheme_word_def plain_byte_def list_all_iff)
  have notin: "x \<notin> set authority" "x \<notin> set scheme" if "\<not> plain_byte x" "x \<notin> {CHR '':'', CHR 0x40, CHR ''+''}" for x
    using sb safe that by (auto simp: list_all_iff)
  have "\<not> is_ctl x" if "x \<in> set ?u" for x
  proof -
    have "plain_byte x \<or> x \<in> {CHR '':'', CHR 0x40, CHR ''+'', CHR ''/''}"
      using that sb safe by (auto simp: list_all_iff)
    then show ?thesis using plain_byte_ok(2) [of x] by (elim disjE) (auto simp: is_ctl_def)
  qed
  then have ok: "\<not> list_ex is_ctl ?u" unfolding list_ex_iff by blast
  have "CHR 0x23 \<notin> set ?u" "CHR 0x3F \<notin> set authority" "CHR ''/'' \<notin> set authority"
    using notin plain_byte_not by simp_all
  note ok = ok this
  have "getScheme ?u = Some (scheme, ''//'' @ authority)"
    using s scheme_loop_word [OF s(4), of "[c]" ?u "''//'' @ authority"] by (simp add: getScheme_def)
  moreover have "ToLower scheme \<noteq> []" using s(1) by (simp add: ToLower_def)
  moreover have "?u \<noteq> ''*''" using s(1) by simp
  ultimately show ?thesis
    using ok a by (simp add: url_Parse_def parse_rest_def HasPrefix_def IndexByte_notin Let_def)
qed

text \<open>The result of the constructor of the proxy, as \<open>buildProxy\<close> returns it.\<close>

definition wrap_socks5 :: "string + 'x \<Rightarrow> proxy_error + 'x" where
  "wrap_socks5 r = (case r of Inl e \<Rightarrow> Inl (Socks5Error e) | Inr p \<Rightarrow> Inr p)"

lemma Contains_scheme: "Contains (s @ ''://'' @ r) ''://''"
proof (induction s)
  case (Cons c s)
  then show ?case by (auto simp: Contains_def)
qed (simp add: Contains_def HasPrefix_def)

lemma plain_no_scheme:
  assumes "list_all plain_byte host" "list_all plain_byte port"
  shows "\<not> Contains (host @ CHR '':'' # port) ''://''"
proof -
  have no: "\<not> HasPrefix t ''://''" if "CHR ''/'' \<notin> set t" for t
    using set_take_subset [of 3 t] that by (auto simp: HasPrefix_def numeral_3_eq_3)
  have "Index t ''://'' = None" if "CHR ''/'' \<notin> set t" for t
    using that
  proof (induction t)
    case (Cons c t)
    then show ?case using no [of "c # t"] by simp
  qed simp
  moreover have "CHR ''/'' \<notin> set (host @ CHR '':'' # port)"
    using plain_notin [OF assms(1) plain_byte_not(2)] plain_notin [OF assms(2) plain_byte_not(2)] by simp
  ultimately show ?thesis by (simp add: Contains_def)
qed

lemma buildProxy_of_url:
  assumes "url_Parse (if \<not> Contains raw ''://'' then ''socks5://'' @ raw else raw) =
      Some \<lparr>url_Scheme = ToLower scheme, url_User = (user, pass), url_Host = host, url_Path = []\<rparr>" "host \<noteq> []"
  shows "buildProxy NewSocks5 raw =
    (if ToLower scheme \<in> {''socks5'', ''socks5h''} then wrap_socks5 (NewSocks5 host user pass)
     else Inl (UnsupportedScheme (ToLower scheme)))"
  using assms(2) unfolding buildProxy_def Let_def assms(1) by (simp add: wrap_socks5_def)

lemma socks5_word: "scheme_word ''socks5''" "ToLower ''socks5'' = ''socks5''"
  by (simp_all add: scheme_word_def is_alnum_def is_digit_def) (simp add: go_defs)

lemma buildProxy_plain:
  assumes "list_all plain_byte host" "list_all is_digit port"
  shows "buildProxy NewSocks5 (host @ '':'' @ port) = wrap_socks5 (NewSocks5 (host @ '':'' @ port) [] [])"
proof -
  have p: "list_all plain_byte port" using assms(2) digit_plain by (auto simp: list_all_iff)
  have "list_all (\<lambda>c. plain_byte c \<or> c = CHR '':'' \<or> c = CHR 0x40) (host @ '':'' @ port)"
    using assms(1) p by (auto simp: list_all_iff)
  from url_Parse_authority [OF socks5_word(1) _ this] show ?thesis
    using buildProxy_of_url [of "host @ '':'' @ port" "''socks5''" "[]" "[]" "host @ '':'' @ port" NewSocks5]
      parseAuthority_plain(1) [OF assms] plain_no_scheme [OF assms(1) p] socks5_word(2)
    by simp
qed

section \<open>Properties of the wiring\<close>

text \<open>C28. The upstream proxy of an address with a scheme, optional user and password, host and port: for the
  schemes socks5 and socks5h, in any case, it is the SOCKS5 proxy at host and port with that user and
  password, and an address without a scheme means socks5; every other scheme is rejected. For all these
  forms the host that the route installer resolves for the bypass routes is the host that is dialled.\<close>

theorem buildProxy_address:
  assumes scheme: "scheme_word scheme" and host: "list_all plain_byte host" and port: "list_all is_digit port"
    and user: "list_all plain_byte user" "list_all plain_byte pass"
  shows "buildProxy NewSocks5 (scheme @ ''://'' @ host @ '':'' @ port) =
      (if ToLower scheme \<in> {''socks5'', ''socks5h''} then wrap_socks5 (NewSocks5 (host @ '':'' @ port) [] [])
       else Inl (UnsupportedScheme (ToLower scheme))) \<and>
    buildProxy NewSocks5 (scheme @ ''://'' @ user @ '':'' @ pass @ [CHR 0x40] @ host @ '':'' @ port) =
      (if ToLower scheme \<in> {''socks5'', ''socks5h''} then wrap_socks5 (NewSocks5 (host @ '':'' @ port) user pass)
       else Inl (UnsupportedScheme (ToLower scheme))) \<and>
    buildProxy NewSocks5 (host @ '':'' @ port) = wrap_socks5 (NewSocks5 (host @ '':'' @ port) [] []) \<and>
    proxy_host (scheme @ ''://'' @ host @ '':'' @ port) = host \<and>
    proxy_host (scheme @ ''://'' @ (user @ '':'' @ pass) @ [CHR 0x40] @ host @ '':'' @ port) = host \<and>
    proxy_host (host @ '':'' @ port) = host"
proof -
  have p: "list_all plain_byte port" using port digit_plain by (auto simp: list_all_iff)
  note sets = plain_notin [OF host] plain_notin [OF p]
  have safe: "list_all (\<lambda>c. plain_byte c \<or> c = CHR '':'' \<or> c = CHR 0x40) (host @ '':'' @ port)"
      "list_all (\<lambda>c. plain_byte c \<or> c = CHR '':'' \<or> c = CHR 0x40) (user @ '':'' @ pass @ [CHR 0x40] @ host @ '':'' @ port)"
    using host p user by (auto simp: list_all_iff)
  note auth = parseAuthority_plain(1) [OF host port] parseAuthority_plain(2) [OF host port user]
  have "buildProxy NewSocks5 (scheme @ ''://'' @ host @ '':'' @ port) =
      (if ToLower scheme \<in> {''socks5'', ''socks5h''} then wrap_socks5 (NewSocks5 (host @ '':'' @ port) [] [])
       else Inl (UnsupportedScheme (ToLower scheme)))"
    by (rule buildProxy_of_url) (use url_Parse_authority [OF scheme _ safe(1)] auth(1) Contains_scheme [of scheme "host @ '':'' @ port"] in simp_all)
  moreover have "buildProxy NewSocks5 (scheme @ ''://'' @ user @ '':'' @ pass @ [CHR 0x40] @ host @ '':'' @ port) =
      (if ToLower scheme \<in> {''socks5'', ''socks5h''} then wrap_socks5 (NewSocks5 (host @ '':'' @ port) user pass)
       else Inl (UnsupportedScheme (ToLower scheme)))"
    by (rule buildProxy_of_url) (use url_Parse_authority [OF scheme _ safe(2)] auth(2)
      Contains_scheme [of scheme "user @ '':'' @ pass @ [CHR 0x40] @ host @ '':'' @ port"] in simp_all)
  moreover note buildProxy_plain [OF host port]
  moreover have "CHR '':'' \<notin> set scheme"
    using scheme by (auto simp: scheme_word_def list_all_iff is_alnum_def)
  moreover have "set host \<inter> {CHR '':'', CHR ''['', CHR '']'', CHR 0x40} = {}" "set port \<inter> {CHR '':'', CHR ''['', CHR '']'', CHR 0x40} = {}"
    using sets plain_byte_not by auto
  ultimately show ?thesis
    using proxy_host_of_url [of scheme host port "user @ '':'' @ pass"] proxy_host_bare [of host port] plain_no_scheme [OF host p] by simp
qed

theorem buildProxy_address_witness:
  "buildProxy (\<lambda>a u p. Inr (a, u, p)) ''SOCKS5://me:pw@10.0.0.1:1080'' = Inr (''10.0.0.1:1080'', ''me'', ''pw'') \<and>
   proxy_host ''SOCKS5://me:pw@10.0.0.1:1080'' = ''10.0.0.1'' \<and> proxy_host ''10.0.0.1:1080'' = ''10.0.0.1'' \<and>
   buildProxy (\<lambda>a u p. Inr (a, u, p)) ''http://me:pw@10.0.0.1:1080'' = Inl (UnsupportedScheme ''http'')"
proof -
  have w: "scheme_word ''SOCKS5''" "scheme_word ''http''" "list_all plain_byte ''10.0.0.1''" "list_all is_digit ''1080''"
    "list_all plain_byte ''me''" "list_all plain_byte ''pw''"
    by (simp_all add: scheme_word_def plain_byte_def is_alnum_def is_digit_def)
  have "ToLower ''SOCKS5'' = ''socks5''" "ToLower ''http'' = ''http''" by (simp_all add: go_defs)
  then show ?thesis
    using buildProxy_address [OF w(1,3,4,5,6), of "\<lambda>a u p. Inr (a, u, p)"] buildProxy_address [OF w(2,3,4,5,6), of "\<lambda>a u p. Inr (a, u, p)"]
    by (simp add: wrap_socks5_def)
qed

text \<open>The options that a configuration gives to the drivers.\<close>

definition wired_opts :: "Runtime \<Rightarrow> 'l \<Rightarrow> (Handler, 'l) DriverOptions" where
  "wired_opts cfg log = \<lparr>do_TunName = rt_TunName cfg, do_MTU = rt_MTU cfg, do_Handler = Some (Handler_New (rt_DNS cfg)),
     do_Logger = Some log, do_EnableIPv6 = True, do_AutoDefaultRoute = rt_AutoDefaultRoute cfg, do_ProxyAddr = rt_Proxy cfg\<rparr>"

definition wired_chain :: "('c, 'p) Proxy \<Rightarrow> ('c, 'p) Proxy \<Rightarrow> Runtime \<Rightarrow> ('c, 'p, Matcher option) Chain" where
  "wired_chain NewDirect upstream cfg = Chain_New NewDirect upstream
     \<lparr>op_Matcher = Some (Matcher_New (rt_ExcludedProcesses cfg) (rt_ExcludeRefresh cfg)), op_ExcludedPrefixes = rt_ExcludedIPs cfg\<rparr>"

definition wired_driver :: "Runtime \<Rightarrow> 'l \<Rightarrow> 'l Driver" where
  "wired_driver cfg log = (if rt_StackMode cfg = ''gvisor'' then GVisorDriver (wired_opts cfg log) else SimpleDriver (wired_opts cfg log))"

lemma createDriver_validated:
  assumes "rt_StackMode cfg \<in> {''gvisor'', ''simple''}"
  shows "createDriver slogDefault cfg (Handler_New (rt_DNS cfg)) log = Inr (wired_driver cfg log)"
  using assms by (auto simp: createDriver_def Driver_New_def wired_driver_def wired_opts_def StackModeGVisor_def StackModeSimple_def Let_def)

lemma App_Run_validated:
  assumes "rt_StackMode cfg \<in> {''gvisor'', ''simple''}" "buildProxy NewSocks5 (rt_Proxy cfg) = Inr upstream"
    and "run_driver os sys lib (wired_driver cfg log) \<lparr>dr_world = w, dr_log = []\<rparr> = (e, s)"
  shows "App_Run os sys lib NewSocks5 NewDirect slogDefault cfg log w =
    (DriverError e, dr_world s,
     (case Matcher_New (rt_ExcludedProcesses cfg) (rt_ExcludeRefresh cfg) of None \<Rightarrow> [] | Some m \<Rightarrow> [MatcherStarted m]) @
     [TunnelNew (wired_chain NewDirect upstream cfg), SetUDPTimeout (rt_UDPTimeout cfg), ProcessAsync,
      DriverRan (wired_driver cfg log) (dr_log s), TunnelClose])"
  using assms(3) unfolding App_Run_def assms(2) by (simp add: createDriver_validated [OF assms(1)] wired_chain_def Let_def)

lemma run_driver_releases:
  assumes "run_driver os sys lib d s = (e, s')"
  shows "\<exists>l stk. dr_log s' = dr_log s @ l \<and> res_run (False, False) l = Some (False, stk) \<and> (stk \<longrightarrow> (\<exists>b. e = BuildStack b))"
proof (cases d)
  case (GVisorDriver opts)
  with assms show ?thesis using gvisor.Run_releases [of os sys lib opts s e s'] by (simp add: gvisor_Run_def)
next
  case (SimpleDriver opts)
  with assms show ?thesis using simple.Run_releases [of os sys lib opts s e s'] by (simp add: simple_Run_def)
qed

lemma stack_mode_validated: "Finalize c = Inr cfg \<Longrightarrow> rt_StackMode cfg \<in> {''gvisor'', ''simple''}"
  by (auto simp: Finalize_cases finalized_def)

text \<open>C29. A run with a validated configuration either fails to build the upstream proxy, and then nothing has
  happened, or wires everything as configured: the matcher starts when there are processes to exclude,
  the tunnel gets the chain with the configured exclusions and the timeout, the driver of the configured
  mode runs with the handler for the configured resolver, and whatever ends it, the device is closed
  before the tunnel, which is closed last. The errors about the stack mode and the handler cannot occur.\<close>

theorem run_wiring:
  assumes "Finalize c = Inr cfg" "App_Run os sys lib NewSocks5 NewDirect slogDefault cfg log w = (e, w', l)"
  shows "case buildProxy NewSocks5 (rt_Proxy cfg) of
      Inl pe \<Rightarrow> e = BuildProxy pe \<and> w' = w \<and> l = []
    | Inr upstream \<Rightarrow>
        \<exists>de dl stk. e = DriverError de \<and>
          l = (case Matcher_New (rt_ExcludedProcesses cfg) (rt_ExcludeRefresh cfg) of None \<Rightarrow> [] | Some m \<Rightarrow> [MatcherStarted m]) @
            [TunnelNew (wired_chain NewDirect upstream cfg), SetUDPTimeout (rt_UDPTimeout cfg), ProcessAsync,
             DriverRan (wired_driver cfg log) dl, TunnelClose] \<and>
          res_run (False, False) dl = Some (False, stk)"
proof (cases "buildProxy NewSocks5 (rt_Proxy cfg)")
  case (Inl pe)
  with assms(2) show ?thesis by (simp add: App_Run_def)
next
  case (Inr upstream)
  obtain de s where r: "run_driver os sys lib (wired_driver cfg log) \<lparr>dr_world = w, dr_log = []\<rparr> = (de, s)" by (rule prod.exhaust)
  obtain stk where "res_run (False, False) (dr_log s) = Some (False, stk)" using run_driver_releases [OF r] by auto
  with App_Run_validated [OF stack_mode_validated [OF assms(1)] Inr r] assms(2) Inr show ?thesis by auto
qed

text \<open>C30. The device is opened with the configured name and the configured MTU cut to 32 bits, before anything
  else: the MTU the device gets is the configured one exactly when that is below two to the power of 32.\<close>

theorem device_mtu:
  assumes "run_driver os sys lib (wired_driver cfg log) s = (e, s')" "os \<noteq> OtherOS" "0 < rt_MTU cfg"
  shows "\<exists>m ok l. dr_log s' = dr_log s @ LibCall (TunOpen (rt_TunName cfg) m) ok # l \<and>
    uint m = rt_MTU cfg mod 2 ^ 32 \<and> (uint m = rt_MTU cfg \<longleftrightarrow> rt_MTU cfg < 2 ^ 32)"
proof -
  let ?m = "word_of_int (rt_MTU cfg) :: 32 word"
  have opts: "do_TunName (wired_opts cfg log) = rt_TunName cfg" "do_MTU (wired_opts cfg log) = rt_MTU cfg" by (simp_all add: wired_opts_def)
  have "\<exists>ok l. dr_log s' = dr_log s @ LibCall (TunOpen (rt_TunName cfg) ?m) ok # l"
    if r: "Driver_Run serve os sys lib (wired_opts cfg log) s = (e, s')" and g: "packet_stack serve" for serve
    using r
  proof (cases rule: Driver_Run_cases)
    case not_built
    then show ?thesis using assms(2) by simp
  next
    case not_opened
    then show ?thesis using call_log [of lib "TunOpen (rt_TunName cfg) ?m" s] by (simp add: opts ex_bool_eq)
  next
    case (opened configure s1 s2 name)
    obtain l where "dr_log s2 = dr_log s1 @ l" using packet_stack.session_log [OF g opened(4)] by blast
    then show ?thesis using opened(2,5) call_log [of lib "TunOpen (rt_TunName cfg) ?m" s] by (simp add: opts call_log ex_bool_eq)
  qed
  then have "\<exists>ok l. dr_log s' = dr_log s @ LibCall (TunOpen (rt_TunName cfg) ?m) ok # l"
    using assms(1) gvisor.packet_stack_axioms simple.packet_stack_axioms
    by (auto simp: wired_driver_def gvisor_Run_def simple_Run_def split: if_splits)
  moreover have "uint ?m = rt_MTU cfg mod 2 ^ 32" by (simp add: unsigned_of_int take_bit_eq_mod)
  moreover have "rt_MTU cfg mod 2 ^ 32 = rt_MTU cfg \<longleftrightarrow> rt_MTU cfg < 2 ^ 32"
    using assms(3) pos_mod_bound [of "2 ^ 32" "rt_MTU cfg"] by (auto simp: mod_pos_pos_trivial)
  ultimately show ?thesis by metis
qed

section \<open>Witnesses\<close>

definition wit_runtime :: Runtime where "wit_runtime = finalized wit_config"

lemma wit_runtime_proxy: "buildProxy (\<lambda>a u p. Inr (wit_proxy True)) (rt_Proxy wit_runtime) = Inr (wit_proxy True)"
  using buildProxy_plain [of "''127.0.0.1''" "''1080''" "\<lambda>a u p. Inr (wit_proxy True)"]
  by (simp add: wit_runtime_def finalized_def wit_config_def Config_zero_def plain_byte_def is_alnum_def is_digit_def wrap_socks5_def)

theorem run_wiring_witness:
  "\<exists>e w' l. App_Run Linux (demo_linux [''iptables'']) demo_lib (\<lambda>a u p. Inr (wit_proxy True)) (wit_proxy False) () wit_runtime () demo_start = (e, w', l) \<and>
     last l = TunnelClose \<and> (\<exists>de. e = DriverError de)"
proof -
  obtain e w' l where r: "App_Run Linux (demo_linux [''iptables'']) demo_lib (\<lambda>a u p. Inr (wit_proxy True)) (wit_proxy False) () wit_runtime () demo_start = (e, w', l)"
    by (metis prod.exhaust)
  from run_wiring [OF wit_config_final [folded wit_runtime_def] r] show ?thesis unfolding wit_runtime_proxy using r by (cases w') auto
qed

theorem device_mtu_witness:
  "\<exists>e s' m ok l. run_driver Linux (demo_linux [''iptables'']) demo_lib (wired_driver wit_runtime ()) \<lparr>dr_world = demo_start, dr_log = []\<rparr> = (e, s') \<and>
     dr_log s' = LibCall (TunOpen ''nano0'' m) ok # l \<and> uint m = 1500"
proof -
  obtain e s' where r: "run_driver Linux (demo_linux [''iptables'']) demo_lib (wired_driver wit_runtime ()) \<lparr>dr_world = demo_start, dr_log = []\<rparr> = (e, s')"
    by (rule prod.exhaust)
  have v: "rt_MTU wit_runtime = 1500" "rt_TunName wit_runtime = ''nano0''"
    by (simp_all add: wit_runtime_def finalized_def wit_config_def Config_zero_def pick_def)
  obtain m ok l where "dr_log s' = LibCall (TunOpen ''nano0'' m) ok # l" "uint m = 1500"
    using device_mtu [OF r] unfolding v by auto
  with r show ?thesis by blast
qed

end
