(* ===== verification/Dns_Redirect.thy ===== *)
theory Dns_Redirect
  imports Route_Undo Go_Url
begin

text \<open>
  How the firewall rules of the route installer and the socket mark of the DNS relay work together on
  Linux. What a command adds to the firewall is a parameter, the destination to which it redirects an
  outgoing packet, if it does, given the commands that were run before it; \<open>firewall_tools\<close> is the documented
  meaning of the commands of nft and iptables for the hooks and matches the program uses. A packet is
  described by the fields these rules test.
\<close>

section \<open>Rules and packets\<close>



















section \<open>Properties\<close>


section \<open>Witness\<close>





end
