(* ===== verification/Matcher_Threads.thy ===== *)
theory Matcher_Threads
  imports Exclude_Matcher
begin

text \<open>
  Package \<^verbatim>\<open>internal/exclude\<close> with its goroutines: queries, each in a goroutine of its own, and the refresh
  loop share one matcher, and every method takes the mutex for itself. A step of the machine is one
  critical section of the mutex (a lookup of a pid, the test of \<open>refreshOnMiss\<close>, a lookup of a name, the
  replacement of the tables) or the reading of the connection tables, which happens outside of it; any
  goroutine that can move may move. That critical sections are steps is justified by the theory
  \<open>Matcher_Locks\<close>, whose machine has the mutex in its state. The machine keeps the connection tables that were read so far and
  the times at which queries started scans.
\<close>

section \<open>The machine\<close>

text \<open>A goroutine. A scan goes back to the query that started it, or to the refresh loop.\<close>

datatype thread =
    Ask string
  | Check string
  | Scanning scan_env "string \<rightharpoonup> int" "int list" "int \<rightharpoonup> string" "string option"
  | Look string
  | Name string int
  | Done string bool
  | Idle

record machine =
  mc_matcher :: Matcher
  mc_threads :: "thread list"
  mc_read :: "scan_env list"
  mc_started :: "int list"

text \<open>One turn of the loop of \<open>resolveProcessNames\<close>.\<close>

definition resolve_one :: "scan_env \<Rightarrow> Matcher \<Rightarrow> int \<Rightarrow> (int \<rightharpoonup> string) \<Rightarrow> (int \<rightharpoonup> string)" where
  "resolve_one env m pid names =
     (if pid = 0 then names
      else if lookupName m pid \<noteq> [] then names(pid \<mapsto> lookupName m pid)
      else if \<not> process_exists env pid then names
      else case process_Name env pid of None \<Rightarrow> names | Some name \<Rightarrow> names(pid \<mapsto> Normalize name))"

definition begin_scan :: "scan_env \<Rightarrow> string option \<Rightarrow> thread" where
  "begin_scan env ret = (let (nextFlow, pidSet) = scan_kinds env scan_types (Map.empty, []) in Scanning env nextFlow pidSet Map.empty ret)"

definition commit :: "scan_env \<Rightarrow> (string \<rightharpoonup> int) \<Rightarrow> (int \<rightharpoonup> string) \<Rightarrow> Matcher \<Rightarrow> Matcher" where
  "commit env nextFlow names m = m\<lparr>flowToPID := nextFlow, pidNames := names, lastScan := scan_end env\<rparr>"

definition resume :: "string option \<Rightarrow> thread" where
  "resume ret = (case ret of None \<Rightarrow> Idle | Some key \<Rightarrow> Look key)"

text \<open>A step of one goroutine: the matcher, the goroutine, and then the matcher, the goroutine, the tables that
  were read and the scan that a query started.\<close>

inductive thread_step :: "Matcher \<Rightarrow> thread \<Rightarrow> Matcher \<Rightarrow> thread \<Rightarrow> scan_env list \<Rightarrow> int list \<Rightarrow> bool" where
  ask_empty: "thread_step m (Ask []) m (Done [] False) [] []"
| ask_known: "key \<noteq> [] \<Longrightarrow> lookupPID m key \<noteq> 0 \<Longrightarrow> thread_step m (Ask key) m (Name key (lookupPID m key)) [] []"
| ask_unknown: "key \<noteq> [] \<Longrightarrow> lookupPID m key = 0 \<Longrightarrow> thread_step m (Ask key) m (Check key) [] []"
| check_fresh: "\<not> stale now m \<Longrightarrow> thread_step m (Check key) m (Look key) [] []"
| check_stale: "stale now m \<Longrightarrow> thread_step m (Check key) m (begin_scan env (Some key)) [env] [now]"
| resolve: "thread_step m (Scanning env nextFlow (pid # pids) names ret) m
     (Scanning env nextFlow pids (resolve_one env m pid names) ret) [] []"
| replace: "thread_step m (Scanning env nextFlow [] names ret) (commit env nextFlow names m) (resume ret) [] []"
| look_unknown: "lookupPID m key = 0 \<Longrightarrow> thread_step m (Look key) m (Done key False) [] []"
| look_known: "lookupPID m key \<noteq> 0 \<Longrightarrow> thread_step m (Look key) m (Name key (lookupPID m key)) [] []"
| decide: "thread_step m (Name key pid) m (Done key (skip_pid m pid)) [] []"
| tick: "thread_step m Idle m (begin_scan env None) [env] []"

inductive machine_step :: "machine \<Rightarrow> machine \<Rightarrow> bool" where
  query: "machine_step c (c\<lparr>mc_threads := mc_threads c @ [Ask key]\<rparr>)"
| move: "i < length (mc_threads c) \<Longrightarrow> thread_step (mc_matcher c) (mc_threads c ! i) m' t' es ns \<Longrightarrow>
     machine_step c \<lparr>mc_matcher = m', mc_threads = (mc_threads c)[i := t'], mc_read = es @ mc_read c, mc_started = ns @ mc_started c\<rparr>"

text \<open>The start: a new matcher and its refresh loop.\<close>

inductive reachable_machine :: "string list \<Rightarrow> duration \<Rightarrow> machine \<Rightarrow> bool" for names :: "string list" and ivl :: duration where
  start: "Matcher_New names ivl = Some m \<Longrightarrow>
     reachable_machine names ivl \<lparr>mc_matcher = m, mc_threads = [Idle], mc_read = [], mc_started = []\<rparr>"
| step: "reachable_machine names ivl c \<Longrightarrow> machine_step c c' \<Longrightarrow> reachable_machine names ivl c'"

section \<open>A scan that nobody interrupts\<close>

lemma resolve_one_eq:
  "resolve_one env m pid names =
     (if pid = 0 then names
      else case (if lookupName m pid \<noteq> [] then Some (lookupName m pid) else fresh_name env pid) of
             None \<Rightarrow> names | Some n \<Rightarrow> names(pid \<mapsto> n))"
  by (auto simp: resolve_one_def fresh_name_def split: option.splits)

lemma resolve_all:
  "fold (resolve_one env m) pids names = names ++ resolveProcessNames env m pids"
proof (induction pids arbitrary: names)
  case (Cons pid pids)
  have "fold (resolve_one env m) (pid # pids) names = resolve_one env m pid names ++ resolveProcessNames env m pids"
    by (simp add: Cons)
  also have "\<dots> = names ++ resolveProcessNames env m (pid # pids)"
    by (rule ext) (auto simp: resolve_one_eq resolveProcessNames_eq map_add_def simp del: resolveProcessNames.simps split: option.splits)
  finally show ?case .
qed (simp add: map_add_def)

section \<open>The invariant\<close>

text \<open>Where the names come from: some scan so far read them. A goroutine that scans has the flows of tables that
  were read and such names; a goroutine that knows a pid got it from tables that were read; a positive
  answer has a reason.\<close>

definition names_from :: "scan_env list \<Rightarrow> (int \<rightharpoonup> string) \<Rightarrow> bool" where
  "names_from es names \<longleftrightarrow> (\<forall>pid n. names pid = Some n \<longrightarrow> (\<exists>e \<in> set es. fresh_name e pid = Some n))"

definition flow_from :: "scan_env list \<Rightarrow> (string \<rightharpoonup> int) \<Rightarrow> bool" where
  "flow_from es f \<longleftrightarrow> (\<forall>key pid. f key = Some pid \<longrightarrow> (\<exists>e \<in> set es. (key, pid) \<in> set (scan_entries e)))"

definition reason :: "string list \<Rightarrow> scan_env list \<Rightarrow> string \<Rightarrow> bool" where
  "reason names es key \<longleftrightarrow>
     (\<exists>pid n. (\<exists>e \<in> set es. (key, pid) \<in> set (scan_entries e)) \<and> pid \<noteq> 0 \<and>
        (\<exists>e \<in> set es. fresh_name e pid = Some n) \<and> Normalize n \<in> Normalize ` set names)"

fun thread_inv :: "string list \<Rightarrow> scan_env list \<Rightarrow> thread \<Rightarrow> bool" where
  "thread_inv names es (Scanning env f pids ns ret) \<longleftrightarrow> flow_from es f \<and> names_from es ns \<and> env \<in> set es"
| "thread_inv names es (Name key pid) \<longleftrightarrow> pid \<noteq> 0 \<and> (\<exists>e \<in> set es. (key, pid) \<in> set (scan_entries e))"
| "thread_inv names es (Done key b) \<longleftrightarrow> (b \<longrightarrow> reason names es key)"
| "thread_inv names es _ \<longleftrightarrow> True"

definition shared_inv :: "string list \<Rightarrow> scan_env list \<Rightarrow> Matcher \<Rightarrow> bool" where
  "shared_inv names es m \<longleftrightarrow>
     targets m = Normalize ` set names - {[]} \<and> flow_from es (flowToPID m) \<and> names_from es (pidNames m)"

lemma inv_mono:
  assumes "set es \<subseteq> set es'"
  shows "thread_inv names es t \<Longrightarrow> thread_inv names es' t" "shared_inv names es m \<Longrightarrow> shared_inv names es' m"
proof -
  have n: "names_from es ns \<Longrightarrow> names_from es' ns" for ns using assms by (fastforce simp: names_from_def)
  have f: "flow_from es f \<Longrightarrow> flow_from es' f" for f using assms by (fastforce simp: flow_from_def)
  have r: "reason names es key \<Longrightarrow> reason names es' key" for key using assms unfolding reason_def by blast
  show "thread_inv names es t \<Longrightarrow> thread_inv names es' t"
    using n f r assms by (cases t) auto
  show "shared_inv names es m \<Longrightarrow> shared_inv names es' m" using n f by (simp add: shared_inv_def)
qed

lemma begin_scan_inv:
  assumes "env \<in> set es"
  shows "thread_inv names es (begin_scan env ret)"
proof -
  have "flow_from es (map_of (rev (scan_entries env)))"
    unfolding flow_from_def using assms map_of_SomeD [of "rev (scan_entries env)"] by (metis set_rev)
  then show ?thesis
    using assms by (simp add: begin_scan_def scan_kinds_entries scan_entries_def [symmetric] names_from_def)
qed

lemma resolve_one_inv:
  assumes "names_from es ns" "names_from es (pidNames m)" "env \<in> set es"
  shows "names_from es (resolve_one env m pid ns)"
  using assms unfolding resolve_one_eq names_from_def
  by (auto simp: lookupName_def split: option.splits if_splits)

lemma known_pid:
  assumes "shared_inv names es m" "lookupPID m key \<noteq> 0"
  shows "\<exists>e \<in> set es. (key, lookupPID m key) \<in> set (scan_entries e)"
  using assms by (auto simp: shared_inv_def flow_from_def lookupPID_def split: option.splits)

lemma decide_inv:
  assumes "shared_inv names es m" "thread_inv names es (Name key pid)" "skip_pid m pid"
  shows "reason names es key"
proof -
  have t: "Normalize (lookupName m pid) \<in> Normalize ` set names" "Normalize (lookupName m pid) \<noteq> []"
    using assms(1,3) by (auto simp: skip_pid_def shared_inv_def Let_def split: if_splits)
  have "Normalize [] = []" by (simp add: Normalize_def go_defs)
  with t(2) have "pidNames m pid = Some (lookupName m pid)" by (auto simp: lookupName_def split: option.splits)
  then have "\<exists>e \<in> set es. fresh_name e pid = Some (lookupName m pid)"
    using assms(1) by (auto simp: shared_inv_def names_from_def)
  with t(1) assms(2) show ?thesis unfolding reason_def thread_inv.simps by blast
qed

lemma thread_step_inv:
  assumes "thread_step m t m' t' rd ns" "shared_inv names es m" "thread_inv names es t"
  shows "shared_inv names (rd @ es) m' \<and> thread_inv names (rd @ es) t'"
  using assms
proof (cases rule: thread_step.cases)
  case (ask_known key)
  then show ?thesis using assms(2) known_pid by simp
next
  case (check_stale now key env)
  then show ?thesis using inv_mono(2) [OF _ assms(2), of "env # es"] begin_scan_inv by auto
next
  case (resolve env f pid pids nms ret)
  then show ?thesis using assms(2,3) resolve_one_inv by (auto simp: shared_inv_def)
next
  case (replace env f nms ret)
  then show ?thesis using assms(2,3) by (auto simp: shared_inv_def commit_def resume_def split: option.split)
next
  case (look_known key)
  then show ?thesis using assms(2) known_pid by simp
next
  case (decide key pid)
  then show ?thesis using assms(2,3) decide_inv by auto
next
  case (tick env)
  then show ?thesis using inv_mono(2) [OF _ assms(2), of "env # es"] begin_scan_inv by auto
qed (use assms(2) in auto)

definition machine_inv :: "string list \<Rightarrow> machine \<Rightarrow> bool" where
  "machine_inv names c \<longleftrightarrow> shared_inv names (mc_read c) (mc_matcher c) \<and> list_all (thread_inv names (mc_read c)) (mc_threads c)"

lemma machine_step_inv:
  assumes "machine_step c c'" "machine_inv names c"
  shows "machine_inv names c'"
  using assms
proof (cases rule: machine_step.cases)
  case (query key)
  then show ?thesis using assms(2) by (simp add: machine_inv_def)
next
  case (move i m' t' rd ns)
  have t: "thread_inv names (mc_read c) (mc_threads c ! i)" using assms(2) move(2) by (simp add: machine_inv_def list_all_length)
  have "shared_inv names (rd @ mc_read c) m' \<and> thread_inv names (rd @ mc_read c) t'"
    using thread_step_inv [OF move(3) _ t] assms(2) by (simp add: machine_inv_def)
  moreover have "list_all (thread_inv names (rd @ mc_read c)) (mc_threads c)"
    using assms(2) inv_mono(1) [of "mc_read c" "rd @ mc_read c"] by (auto simp: machine_inv_def list_all_iff)
  ultimately show ?thesis
    unfolding move(1) by (auto simp: machine_inv_def list_all_iff dest: set_update_subset_insert [THEN subsetD])
qed

lemma reachable_machine_inv: "reachable_machine names ivl c \<Longrightarrow> machine_inv names c"
proof (induction rule: reachable_machine.induct)
  case (start m)
  then show ?case
    by (auto simp: Matcher_New_def add_targets_eq machine_inv_def shared_inv_def flow_from_def names_from_def split: if_splits)
next
  case (step c c')
  then show ?case using machine_step_inv by blast
qed

section \<open>One goroutine at a time\<close>

text \<open>The steps of one goroutine while all others rest.\<close>

definition alone :: "Matcher \<times> thread \<Rightarrow> Matcher \<times> thread \<Rightarrow> bool" where
  "alone x y \<longleftrightarrow> (\<exists>es ns. thread_step (fst x) (snd x) (fst y) (snd y) es ns)"

lemma alone_step: "thread_step m t m' t' es ns \<Longrightarrow> alone\<^sup>*\<^sup>* (m', t') y \<Longrightarrow> alone\<^sup>*\<^sup>* (m, t) y"
  by (rule converse_rtranclp_into_rtranclp) (auto simp: alone_def)

lemma alone_resolve:
  "alone\<^sup>*\<^sup>* (m, Scanning env f pids names ret) (m, Scanning env f [] (fold (resolve_one env m) pids names) ret)"
proof (induction pids arbitrary: names)
  case (Cons pid pids)
  then show ?case by (auto intro: alone_step [OF thread_step.resolve])
qed simp

lemma alone_scan: "alone\<^sup>*\<^sup>* (m, begin_scan env ret) (scanOnce env m, resume ret)"
proof -
  obtain f pids where k: "scan_kinds env scan_types (Map.empty, []) = (f, pids)" by (rule prod.exhaust)
  have "commit env f (fold (resolve_one env m) pids Map.empty) m = scanOnce env m"
    by (simp add: commit_def scanOnce_def k resolve_all)
  then have "alone\<^sup>*\<^sup>* (m, Scanning env f [] (fold (resolve_one env m) pids Map.empty) ret) (scanOnce env m, resume ret)"
    using alone_step [OF thread_step.replace] by force
  then show ?thesis
    using rtranclp_trans [OF alone_resolve] by (simp add: begin_scan_def k)
qed

lemma alone_look:
  "alone\<^sup>*\<^sup>* (m, Look key) (m, Done key (lookupPID m key \<noteq> 0 \<and> skip_pid m (lookupPID m key)))"
proof (cases "lookupPID m key = 0")
  case True
  then show ?thesis using alone_step [OF thread_step.look_unknown [OF True] rtranclp.rtrancl_refl] by simp
next
  case False
  then show ?thesis
    using alone_step [OF thread_step.look_known [OF False] alone_step [OF thread_step.decide rtranclp.rtrancl_refl]] by simp
qed

lemma alone_query:
  fixes now env m md
  defines "key \<equiv> flowKey env (md_Network md) (md_SourceAddrPort md)"
  shows "alone\<^sup>*\<^sup>* (m, Ask key) (the (snd (ShouldSkip now env (Some m) md)), Done key (fst (ShouldSkip now env (Some m) md)))"
proof -
  have eq: "ShouldSkip now env (Some m) md =
      (if key = [] then (False, Some m)
       else if lookupPID m key = 0 then
         (let m' = refreshOnMiss now env m in (lookupPID m' key \<noteq> 0 \<and> skip_pid m' (lookupPID m' key), Some m'))
       else (skip_pid m (lookupPID m key), Some m))"
    by (simp add: ShouldSkip_def key_def Let_def)
  consider "key = []" | "key \<noteq> []" "lookupPID m key \<noteq> 0" | "key \<noteq> []" "lookupPID m key = 0" "stale now m"
    | "key \<noteq> []" "lookupPID m key = 0" "\<not> stale now m" by blast
  then show ?thesis
  proof cases
    case 1
    then show ?thesis using alone_step [OF thread_step.ask_empty rtranclp.rtrancl_refl] by (simp add: eq)
  next
    case 2
    then show ?thesis
      using alone_step [OF thread_step.ask_known [OF 2] alone_step [OF thread_step.decide rtranclp.rtrancl_refl]] by (simp add: eq)
  next
    case 3
    have "alone\<^sup>*\<^sup>* (m, begin_scan env (Some key)) (scanOnce env m, Look key)" using alone_scan [of m env "Some key"] by (simp add: resume_def)
    note rtranclp_trans [OF this alone_look]
    from alone_step [OF thread_step.ask_unknown [OF 3(1,2)] alone_step [OF thread_step.check_stale [OF 3(3)] this]] 3 show ?thesis
      by (simp add: eq refreshOnMiss_def Let_def)
  next
    case 4
    from alone_step [OF thread_step.ask_unknown [OF 4(1,2)] alone_step [OF thread_step.check_fresh [OF 4(3)] alone_look]] 4 show ?thesis
      by (simp add: eq refreshOnMiss_def Let_def)
  qed
qed

lemma machine_runs_alone:
  assumes "alone\<^sup>*\<^sup>* x y" "reachable_machine names ivl c" "i < length (mc_threads c)" "x = (mc_matcher c, mc_threads c ! i)"
  shows "\<exists>c'. reachable_machine names ivl c' \<and> mc_matcher c' = fst y \<and> mc_threads c' = (mc_threads c)[i := snd y]"
  using assms
proof (induction arbitrary: rule: rtranclp_induct)
  case base
  then show ?case by (metis fst_conv list_update_id snd_conv)
next
  case (step y z)
  then obtain c' where c': "reachable_machine names ivl c'" "mc_matcher c' = fst y" "mc_threads c' = (mc_threads c)[i := snd y]" by blast
  obtain es ns where t: "thread_step (fst y) (snd y) (fst z) (snd z) es ns" using step.hyps(2) by (auto simp: alone_def)
  have i: "i < length (mc_threads c')" "mc_threads c' ! i = snd y" using c'(3) step.prems(2) by simp_all
  have "machine_step c' \<lparr>mc_matcher = fst z, mc_threads = (mc_threads c')[i := snd z], mc_read = es @ mc_read c', mc_started = ns @ mc_started c'\<rparr>"
    using t by (intro machine_step.move [OF i(1)]) (simp add: i(2) c'(2))
  from reachable_machine.step [OF c'(1) this] show ?case using c'(3) by fastforce
qed

section \<open>Progress of a query\<close>

text \<open>The flow a goroutine asks about; the refresh loop and its scans ask about none.\<close>

fun query_key :: "thread \<Rightarrow> string option" where
  "query_key (Ask key) = Some key"
| "query_key (Check key) = Some key"
| "query_key (Scanning env nextFlow pids names ret) = ret"
| "query_key (Look key) = Some key"
| "query_key (Name key pid) = Some key"
| "query_key (Done key ans) = Some key"
| "query_key Idle = None"

text \<open>How far a query is: the stage it is in and, in a scan, the pids that have no name yet.\<close>

fun stage :: "thread \<Rightarrow> nat \<times> nat" where
  "stage (Ask key) = (5, 0)"
| "stage (Check key) = (4, 0)"
| "stage (Scanning env nextFlow pids names ret) = (3, length pids)"
| "stage (Look key) = (2, 0)"
| "stage (Name key pid) = (1, 0)"
| "stage t = (0, 0)"

inductive_cases thread_stepE: "thread_step m t m' t' es ns"

lemma begin_scan_key [simp]: "query_key (begin_scan env ret) = ret" "fst (stage (begin_scan env ret)) = 3"
  by (simp_all add: begin_scan_def case_prod_beta Let_def)

lemma resume_key [simp]: "query_key (resume ret) = ret" by (simp add: resume_def split: option.split)

lemma query_step:
  assumes "thread_step m t m' t' es ns" "query_key t = Some key"
  shows "query_key t' = Some key \<and> (stage t', stage t) \<in> less_than <*lex*> less_than"
  using assms by (elim thread_stepE) (auto simp: resume_def begin_scan_def case_prod_beta Let_def)

lemma query_moves:
  assumes "query_key t = Some key" "\<nexists>ans. t = Done key ans"
  shows "\<exists>m' t' es ns. thread_step m t m' t' es ns"
proof (cases t)
  case (Ask k)
  then show ?thesis by (cases "k = []"; cases "lookupPID m k = 0") (blast intro: thread_step.intros)+
next
  case (Check k)
  then show ?thesis by (cases "stale 0 m") (blast intro: thread_step.intros)+
next
  case (Scanning env nextFlow pids names ret)
  then show ?thesis by (cases pids) (blast intro: thread_step.intros)+
next
  case (Look k)
  then show ?thesis by (cases "lookupPID m k = 0") (blast intro: thread_step.intros)+
next
  case (Name k pid)
  then show ?thesis by (blast intro: thread_step.intros)
qed (use assms in auto)

section \<open>Properties\<close>

text \<open>C7. However the goroutines interleave, a query answers yes only for a reason: the connection tables that were
  read list its flow with a nonzero pid, and for that pid a process name was read that matches a
  configured one.\<close>

theorem threads_skip_reason:
  assumes "reachable_machine names ivl c" "Done key True \<in> set (mc_threads c)"
  shows "\<exists>pid n. (\<exists>e \<in> set (mc_read c). (key, pid) \<in> set (scan_entries e)) \<and> pid \<noteq> 0 \<and>
    (\<exists>e \<in> set (mc_read c). fresh_name e pid = Some n) \<and> Normalize n \<in> Normalize ` set names"
  using reachable_machine_inv [OF assms(1)] assms(2) by (auto simp: machine_inv_def list_all_iff reason_def)

text \<open>C9. The machine implements the sequential functions: a scan that is not interrupted has the effect of
  \<open>scanOnce\<close>, and a query that is not interrupted has the effect and the answer of \<open>ShouldSkip\<close>.\<close>

theorem threads_refine:
  "alone\<^sup>*\<^sup>* (m, begin_scan env ret) (scanOnce env m, resume ret) \<and>
   alone\<^sup>*\<^sup>* (m, Ask (flowKey env (md_Network md) (md_SourceAddrPort md)))
     (the (snd (ShouldSkip now env (Some m) md)),
      Done (flowKey env (md_Network md) (md_SourceAddrPort md)) (fst (ShouldSkip now env (Some m) md)))"
  using alone_scan alone_query by blast

text \<open>C24. The rate limit of the scans that queries start does not hold when queries overlap: a state is reachable
  in which two goroutines, started at the same instant, are both inside a scan that a query started, each
  with the tables it read and no pid resolved yet, while the matcher is still the new one, which no scan
  has replaced; and the scans end no earlier than they start.\<close>

theorem overlapping_scans:
  "\<exists>c now env key i j. reachable_machine [''steam''] 0 c \<and> Matcher_New [''steam''] 0 = Some (mc_matcher c) \<and>
     i < length (mc_threads c) \<and> j < length (mc_threads c) \<and> i \<noteq> j \<and>
     mc_threads c ! i = begin_scan env (Some key) \<and> mc_threads c ! j = begin_scan env (Some key) \<and>
     mc_started c = [now, now] \<and> now \<le> scan_end env"
proof -
  let ?m = wit_matcher and ?key = "''tcp:10.0.0.1:4000''" and ?r = "reachable_machine [''steam''] 0"
  have pid: "lookupPID ?m ?key = 0" by (simp add: lookupPID_def wit_matcher_def)
  have st: "stale 3000000000 ?m" by (simp add: stale_def Time_Sub_def wit_matcher_def)
  note move = machine_step.move [THEN reachable_machine.step [rotated]]
  have "?r \<lparr>mc_matcher = ?m, mc_threads = [Idle], mc_read = [], mc_started = []\<rparr>"
    by (rule reachable_machine.start [OF wit_matcher_New])
  from reachable_machine.step [OF reachable_machine.step [OF this machine_step.query [where key = ?key]] machine_step.query [where key = ?key]]
  have "?r \<lparr>mc_matcher = ?m, mc_threads = [Idle, Ask ?key, Ask ?key], mc_read = [], mc_started = []\<rparr>" by simp
  from move [OF _ _ this, of 1] thread_step.ask_unknown [OF _ pid]
  have "?r \<lparr>mc_matcher = ?m, mc_threads = [Idle, Check ?key, Ask ?key], mc_read = [], mc_started = []\<rparr>" by fastforce
  from move [OF _ _ this, of 2] thread_step.ask_unknown [OF _ pid]
  have "?r \<lparr>mc_matcher = ?m, mc_threads = [Idle, Check ?key, Check ?key], mc_read = [], mc_started = []\<rparr>" by fastforce
  from move [OF _ _ this, of 1] thread_step.check_stale [OF st, of ?key wit_env]
  have "?r \<lparr>mc_matcher = ?m, mc_threads = [Idle, begin_scan wit_env (Some ?key), Check ?key], mc_read = [wit_env], mc_started = [3000000000]\<rparr>" by fastforce
  from move [OF _ _ this, of 2] thread_step.check_stale [OF st, of ?key wit_env]
  have "?r \<lparr>mc_matcher = ?m, mc_threads = [Idle, begin_scan wit_env (Some ?key), begin_scan wit_env (Some ?key)],
      mc_read = [wit_env, wit_env], mc_started = [3000000000, 3000000000]\<rparr>" (is "reachable_machine _ _ ?c") by fastforce
  moreover have "3000000000 \<le> scan_end wit_env" by (simp add: wit_env_def)
  ultimately have "?r ?c \<and> Matcher_New [''steam''] 0 = Some (mc_matcher ?c) \<and>
      1 < length (mc_threads ?c) \<and> 2 < length (mc_threads ?c) \<and> 1 \<noteq> (2 :: nat) \<and>
      mc_threads ?c ! 1 = begin_scan wit_env (Some ?key) \<and> mc_threads ?c ! 2 = begin_scan wit_env (Some ?key) \<and>
      mc_started ?c = [3000000000, 3000000000] \<and> 3000000000 \<le> scan_end wit_env" by (simp add: wit_matcher_New)
  then show ?thesis by (intro exI)
qed

section \<open>Witnesses\<close>

theorem threads_skip_reason_witness:
  "\<exists>c pid n. reachable_machine [''steam''] 0 c \<and> (\<exists>e \<in> set (mc_read c). (flowKey wit_env TCP wit_src, pid) \<in> set (scan_entries e)) \<and> pid \<noteq> 0 \<and>
    (\<exists>e \<in> set (mc_read c). fresh_name e pid = Some n) \<and> Normalize n \<in> Normalize ` set [''steam'']"
proof -
  have "reachable_machine [''steam''] 0 \<lparr>mc_matcher = wit_matcher, mc_threads = [Idle], mc_read = [], mc_started = []\<rparr>"
    by (rule reachable_machine.start [OF wit_matcher_New])
  from reachable_machine.step [OF this machine_step.query [where key = "flowKey wit_env TCP wit_src"]]
  have r: "reachable_machine [''steam''] 0 \<lparr>mc_matcher = wit_matcher, mc_threads = [Idle, Ask (flowKey wit_env TCP wit_src)], mc_read = [], mc_started = []\<rparr>"
    by simp
  obtain c where c: "reachable_machine [''steam''] 0 c" "Done (flowKey wit_env TCP wit_src) True \<in> set (mc_threads c)"
    using machine_runs_alone [OF alone_query [of wit_matcher wit_env wit_md 3000000000] r, of 1] wit_skip by (auto simp: wit_fields)
  from threads_skip_reason [OF c] c(1) show ?thesis by blast
qed

end
