(* ===== verification/Matcher_Locks.thy ===== *)
theory Matcher_Locks
  imports Matcher_Threads
begin

text \<open>
  Package \<^verbatim>\<open>internal/exclude\<close> with its mutex: the goroutines of \<open>Matcher_Threads\<close>, each with the instructions
  of the method it is in, and the \<open>sync.RWMutex\<close> in the state, so that a goroutine can block. A method is
  the list of its locking calls and of its accesses to the guarded fields, in the order of the source; the
  three assignments of \<open>scanOnce\<close> are three steps. The theory shows that the mutex is used correctly, that
  the critical sections therefore act as one step, which is what \<open>Matcher_Threads\<close> takes for granted, and
  that no state is reachable in which a query can no longer be answered.
\<close>

section \<open>The mutex\<close>

text \<open>As the package \<^verbatim>\<open>sync\<close> documents it: any number of readers or one writer; a call of \<open>Lock\<close> first announces
  itself, which keeps out further readers and writers, and then waits until the readers have left.\<close>

datatype writer = NoWriter | Announced | Writing

record RWMutex =
  rw_readers :: nat
  rw_writer :: writer

datatype instr = RLock | RUnlock | Announce | Drain | Unlock | Read | SetFlow | SetNames | SetLastScan | Local

definition mu_Lock :: "instr list" where "mu_Lock = [Announce, Drain]"

section \<open>The methods\<close>

definition lookupPID_code :: "instr list" where "lookupPID_code = [RLock, Read, RUnlock]"

definition lookupName_code :: "instr list" where "lookupName_code = [RLock, Read, RUnlock]"

text \<open>The test of \<open>refreshOnMiss\<close>; the scan comes after it.\<close>

definition refreshOnMiss_code :: "instr list" where "refreshOnMiss_code = [RLock, Read, RUnlock]"

text \<open>The end of \<open>scanOnce\<close>, where the tables are replaced.\<close>

definition scanOnce_code :: "instr list" where "scanOnce_code = mu_Lock @ [SetFlow, SetNames, SetLastScan, Unlock]"

text \<open>What a goroutine executes next, by the place it is at: \<open>ShouldSkip\<close> looks the pid up, tests whether the tables
  are stale, looks the pid up again and looks the name up; a scan looks up the name of every pid but 0 and
  replaces the tables. A place without a call of a locking method has a local step.\<close>

fun thread_code :: "thread \<Rightarrow> instr list" where
  "thread_code (Ask key) = (if key = [] then [Local] else lookupPID_code)"
| "thread_code (Check key) = refreshOnMiss_code"
| "thread_code (Scanning env nextFlow (pid # pids) names ret) = (if pid = 0 then [Local] else lookupName_code)"
| "thread_code (Scanning env nextFlow [] names ret) = scanOnce_code"
| "thread_code (Look key) = lookupPID_code"
| "thread_code (Name key pid) = lookupName_code"
| "thread_code (Done key ans) = []"
| "thread_code Idle = [Local]"

text \<open>A goroutine with the instructions it still has to execute before it is at its next place.\<close>

type_synonym goroutine = "thread \<times> instr list"

inductive instr_step ::
  "RWMutex \<Rightarrow> Matcher \<Rightarrow> goroutine \<Rightarrow> RWMutex \<Rightarrow> Matcher \<Rightarrow> goroutine \<Rightarrow> scan_env list \<Rightarrow> int list \<Rightarrow> bool" where
  enter: "\<nexists>key ans. t = Done key ans \<Longrightarrow> instr_step mu m (t, []) mu m (t, thread_code t) [] []"
| rlock: "rw_writer mu = NoWriter \<Longrightarrow> instr_step mu m (t, RLock # is) (mu\<lparr>rw_readers := Suc (rw_readers mu)\<rparr>) m (t, is) [] []"
| runlock: "rw_readers mu = Suc n \<Longrightarrow> instr_step mu m (t, RUnlock # is) (mu\<lparr>rw_readers := n\<rparr>) m (t, is) [] []"
| announce: "rw_writer mu = NoWriter \<Longrightarrow> instr_step mu m (t, Announce # is) (mu\<lparr>rw_writer := Announced\<rparr>) m (t, is) [] []"
| drain: "rw_writer mu = Announced \<Longrightarrow> rw_readers mu = 0 \<Longrightarrow>
     instr_step mu m (t, Drain # is) (mu\<lparr>rw_writer := Writing\<rparr>) m (t, is) [] []"
| unlock: "rw_writer mu = Writing \<Longrightarrow> instr_step mu m (t, Unlock # is) (mu\<lparr>rw_writer := NoWriter\<rparr>) m (t, is) [] []"
| read: "thread_step m t m t' es ns \<Longrightarrow> instr_step mu m (t, Read # is) mu m (t', is) es ns"
| local: "thread_step m t m t' es ns \<Longrightarrow> instr_step mu m (t, Local # is) mu m (t', is) es ns"
| setFlow: "instr_step mu m (Scanning env f [] nms ret, SetFlow # is) mu (m\<lparr>flowToPID := f\<rparr>) (Scanning env f [] nms ret, is) [] []"
| setNames: "instr_step mu m (Scanning env f [] nms ret, SetNames # is) mu (m\<lparr>pidNames := nms\<rparr>) (Scanning env f [] nms ret, is) [] []"
| setLastScan: "instr_step mu m (Scanning env f [] nms ret, SetLastScan # is) mu (m\<lparr>lastScan := scan_end env\<rparr>) (resume ret, is) [] []"

inductive_cases instr_stepE: "instr_step mu m g mu' m' g' es ns"

record locked =
  lm_mutex :: RWMutex
  lm_matcher :: Matcher
  lm_threads :: "goroutine list"
  lm_read :: "scan_env list"
  lm_started :: "int list"

inductive locked_step :: "locked \<Rightarrow> locked \<Rightarrow> bool" where
  query: "locked_step c (c\<lparr>lm_threads := lm_threads c @ [(Ask key, [])]\<rparr>)"
| move: "i < length (lm_threads c) \<Longrightarrow> instr_step (lm_mutex c) (lm_matcher c) (lm_threads c ! i) mu' m' g' es ns \<Longrightarrow>
     locked_step c \<lparr>lm_mutex = mu', lm_matcher = m', lm_threads = (lm_threads c)[i := g'],
       lm_read = es @ lm_read c, lm_started = ns @ lm_started c\<rparr>"

inductive reachable_locked :: "string list \<Rightarrow> duration \<Rightarrow> locked \<Rightarrow> bool" for names :: "string list" and ivl :: duration where
  start: "Matcher_New names ivl = Some m \<Longrightarrow>
     reachable_locked names ivl \<lparr>lm_mutex = \<lparr>rw_readers = 0, rw_writer = NoWriter\<rparr>, lm_matcher = m, lm_threads = [(Idle, [])],
       lm_read = [], lm_started = []\<rparr>"
| step: "reachable_locked names ivl c \<Longrightarrow> locked_step c c' \<Longrightarrow> reachable_locked names ivl c'"

lemmas code_defs = lookupPID_code_def lookupName_code_def refreshOnMiss_code_def scanOnce_code_def mu_Lock_def

section \<open>Who holds the mutex\<close>

text \<open>Read off the instructions that are left.\<close>

definition reads :: "goroutine \<Rightarrow> bool" where
  "reads g \<longleftrightarrow> RUnlock \<in> set (snd g) \<and> RLock \<notin> set (snd g)"

definition announces :: "goroutine \<Rightarrow> bool" where
  "announces g \<longleftrightarrow> Drain \<in> set (snd g) \<and> Announce \<notin> set (snd g)"

definition writes :: "goroutine \<Rightarrow> bool" where
  "writes g \<longleftrightarrow> Unlock \<in> set (snd g) \<and> Drain \<notin> set (snd g)"

lemmas holder_defs = reads_def announces_def writes_def

definition holds :: "goroutine \<Rightarrow> bool" where
  "holds g \<longleftrightarrow> reads g \<or> announces g \<or> writes g"

text \<open>A goroutine is inside the method of its place, with the access still to come, or behind it with at most the
  release of the mutex left.\<close>

definition in_method :: "goroutine \<Rightarrow> bool" where
  "in_method g \<longleftrightarrow> snd g \<in> {[], [RUnlock], [Unlock]} \<or>
     (\<exists>p. thread_code (fst g) = p @ snd g \<and> set (snd g) \<inter> {Read, Local, SetLastScan} \<noteq> {})"

text \<open>How many goroutines are in a state.\<close>

definition how_many :: "('a \<Rightarrow> bool) \<Rightarrow> 'a list \<Rightarrow> nat" where
  "how_many P xs = length (filter P xs)"

lemma how_many_update:
  assumes "i < length xs"
  shows "how_many P (xs[i := y]) + of_bool (P (xs ! i)) = how_many P xs + of_bool (P y)"
proof -
  have "xs = take i xs @ xs ! i # drop (Suc i) xs" "xs[i := y] = take i xs @ y # drop (Suc i) xs"
    using assms by (simp_all add: id_take_nth_drop upd_conv_take_nth_drop)
  then have "how_many P xs = how_many P (take i xs @ xs ! i # drop (Suc i) xs)" "how_many P (xs[i := y]) = how_many P (take i xs @ y # drop (Suc i) xs)"
    by metis+
  then show ?thesis by (simp add: how_many_def)
qed

lemma how_many_append [simp]: "how_many P (xs @ ys) = how_many P xs + how_many P ys"
  by (simp add: how_many_def)

lemma how_many_0: "how_many P xs = 0 \<longleftrightarrow> (\<forall>x \<in> set xs. \<not> P x)"
  by (simp add: how_many_def filter_empty_conv)

lemma how_many_pos: "x \<in> set xs \<Longrightarrow> P x \<Longrightarrow> 0 < how_many P xs"
  by (metis how_many_0 not_gr_zero)

text \<open>Two different places count twice.\<close>

lemma how_many_two:
  assumes "i < length xs" "j < length xs" "i \<noteq> j" "P (xs ! i)" "P (xs ! j)"
  shows "2 \<le> how_many P xs"
proof -
  have "card {i, j} \<le> card {k. k < length xs \<and> P (xs ! k)}"
    by (rule card_mono) (use assms in auto)
  with assms(3) show ?thesis by (simp add: how_many_def length_filter_conv_card)
qed

section \<open>The invariant of the mutex\<close>

text \<open>The forms of the code of a place, and of what is left of it.\<close>

lemma thread_code_forms:
  "(\<exists>key ans. t = Done key ans) \<and> thread_code t = [] \<or> thread_code t = [Local] \<or> thread_code t = [RLock, Read, RUnlock] \<or>
   (\<exists>env f nms ret. t = Scanning env f [] nms ret) \<and> thread_code t = [Announce, Drain, SetFlow, SetNames, SetLastScan, Unlock]"
  by (cases t rule: thread_code.cases) (simp_all add: code_defs)

lemma in_method_cases [consumes 1, case_names left local reading writing]:
  assumes "in_method (t, is)"
  obtains "is \<in> {[], [RUnlock], [Unlock]}"
  | "is = [Local]" "thread_code t = [Local]"
  | "is \<in> {[RLock, Read, RUnlock], [Read, RUnlock]}" "thread_code t = [RLock, Read, RUnlock]"
  | env f nms ret where "t = Scanning env f [] nms ret"
      "is \<in> {[Announce, Drain, SetFlow, SetNames, SetLastScan, Unlock], [Drain, SetFlow, SetNames, SetLastScan, Unlock],
         [SetFlow, SetNames, SetLastScan, Unlock], [SetNames, SetLastScan, Unlock], [SetLastScan, Unlock]}"
proof -
  consider "is \<in> {[], [RUnlock], [Unlock]}" | p where "thread_code t = p @ is" "set is \<inter> {Read, Local, SetLastScan} \<noteq> {}"
    using assms by (auto simp: in_method_def)
  then show thesis
  proof cases
    case 2
    from thread_code_forms [of t] show thesis
    proof (elim disjE conjE exE)
      assume "thread_code t = [Local]"
      with 2 show thesis using that(2) by (auto simp: Cons_eq_append_conv)
    next
      assume "thread_code t = [RLock, Read, RUnlock]"
      with 2 show thesis using that(3) by (auto simp: Cons_eq_append_conv)
    next
      fix env f nms ret
      assume t: "t = Scanning env f [] nms ret" and "thread_code t = [Announce, Drain, SetFlow, SetNames, SetLastScan, Unlock]"
      with 2(1) have "p @ is = [Announce, Drain, SetFlow, SetNames, SetLastScan, Unlock]" by metis
      with 2(2) show thesis by (intro that(4) [OF t]) (auto simp: append_eq_Cons_conv)
    qed (use 2 in simp)
  qed (rule that(1))
qed

definition lock_inv :: "locked \<Rightarrow> bool" where
  "lock_inv c \<longleftrightarrow>
     list_all in_method (lm_threads c) \<and>
     rw_readers (lm_mutex c) = how_many reads (lm_threads c) \<and>
     how_many announces (lm_threads c) = of_bool (rw_writer (lm_mutex c) = Announced) \<and>
     how_many writes (lm_threads c) = of_bool (rw_writer (lm_mutex c) = Writing) \<and>
     (rw_writer (lm_mutex c) = Writing \<longrightarrow> rw_readers (lm_mutex c) = 0)"

text \<open>A step of a goroutine changes the mutex exactly as it changes what the goroutine holds.\<close>

lemma enter_in_method:
  assumes "\<nexists>key ans. t = Done key ans"
  shows "in_method (t, thread_code t)" "\<not> holds (t, thread_code t)"
  using thread_code_forms [of t] assms
  by (auto simp: in_method_def holds_def holder_defs simp del: thread_code.simps intro: exI [of _ "[]"])

lemma in_method_access:
  "in_method (t, a # is) \<Longrightarrow> a \<in> {Read, Local, SetLastScan} \<Longrightarrow> is \<in> {[], [RUnlock], [Unlock]}"
  by (elim in_method_cases) auto

lemma in_method_tail:
  assumes "in_method (t, a # is)" "a \<notin> {Read, Local, SetLastScan}"
  shows "in_method (t, is)"
proof -
  consider "is = []" | p where "thread_code t = p @ a # is" "set is \<inter> {Read, Local, SetLastScan} \<noteq> {}"
    using assms by (auto simp: in_method_def)
  then show ?thesis
  proof cases
    case 2
    then have "thread_code t = (p @ [a]) @ is" by simp
    with 2(2) show ?thesis unfolding in_method_def fst_conv snd_conv by blast
  qed (simp add: in_method_def)
qed

lemma in_method_step:
  assumes "instr_step mu m g mu' m' g' es ns" "in_method g"
  shows "in_method g'"
  using assms(1)
proof (cases rule: instr_step.cases)
  case (enter t)
  then show ?thesis using enter_in_method by simp
next
  case (read t t' k)
  then show ?thesis using assms(2) in_method_access [of t Read k] by (simp add: in_method_def)
next
  case (local t t' k)
  then show ?thesis using assms(2) in_method_access [of t Local k] by (simp add: in_method_def)
next
  case (setLastScan env f nms ret k)
  then show ?thesis using assms(2) in_method_access [of "Scanning env f [] nms ret" SetLastScan k] by (simp add: in_method_def)
qed (use assms(2) in_method_tail in auto)

text \<open>What a goroutine holds after a step, given what it held before.\<close>

lemma mutex_step:
  assumes "instr_step mu m g mu' m' g' es ns" "in_method g"
  shows "rw_readers mu' + of_bool (reads g) = rw_readers mu + of_bool (reads g')"
    "of_bool (rw_writer mu' = Announced) + of_bool (announces g) = of_bool (rw_writer mu = Announced) + (of_bool (announces g') :: nat)"
    "of_bool (rw_writer mu' = Writing) + of_bool (writes g) = of_bool (rw_writer mu = Writing) + (of_bool (writes g') :: nat)"
    "rw_writer mu' = Writing \<Longrightarrow> rw_readers mu' = 0 \<or> rw_writer mu = Writing \<and> rw_readers mu' \<le> rw_readers mu"
proof -
  have enter: "\<not> reads (t, []) \<and> \<not> announces (t, []) \<and> \<not> writes (t, [])" for t by (simp add: holder_defs)
  have *: "rw_readers mu' + of_bool (reads g) = rw_readers mu + of_bool (reads g') \<and>
    of_bool (rw_writer mu' = Announced) + of_bool (announces g) = of_bool (rw_writer mu = Announced) + (of_bool (announces g') :: nat) \<and>
    of_bool (rw_writer mu' = Writing) + of_bool (writes g) = of_bool (rw_writer mu = Writing) + (of_bool (writes g') :: nat) \<and>
    (rw_writer mu' = Writing \<longrightarrow> rw_readers mu' = 0 \<or> rw_writer mu = Writing \<and> rw_readers mu' \<le> rw_readers mu)"
    using assms(1)
  proof (cases rule: instr_step.cases)
    case (enter t)
    then show ?thesis using enter_in_method(2) [OF enter(7)] by (simp add: holds_def) (simp add: holder_defs)
  qed (use assms(2) in \<open>auto simp: holder_defs elim!: in_method_cases\<close>)
  then show "rw_readers mu' + of_bool (reads g) = rw_readers mu + of_bool (reads g')"
    "of_bool (rw_writer mu' = Announced) + of_bool (announces g) = of_bool (rw_writer mu = Announced) + (of_bool (announces g') :: nat)"
    "of_bool (rw_writer mu' = Writing) + of_bool (writes g) = of_bool (rw_writer mu = Writing) + (of_bool (writes g') :: nat)"
    "rw_writer mu' = Writing \<Longrightarrow> rw_readers mu' = 0 \<or> rw_writer mu = Writing \<and> rw_readers mu' \<le> rw_readers mu"
    by blast+
qed

lemma lock_inv_step:
  assumes "locked_step c c'" "lock_inv c"
  shows "lock_inv c'"
  using assms(1)
proof (cases rule: locked_step.cases)
  case (query key)
  then show ?thesis using assms(2) by (auto simp: lock_inv_def in_method_def how_many_def holder_defs)
next
  case (move i mu' m' g' es ns)
  have g: "in_method (lm_threads c ! i)" using assms(2) move(2) by (simp add: lock_inv_def list_all_length)
  note change = mutex_step [OF move(3) g] and count = how_many_update [OF move(2), of _ g']
  have "list_all in_method ((lm_threads c)[i := g'])"
    using assms(2) in_method_step [OF move(3) g]
    by (auto simp: lock_inv_def list_all_iff dest: set_update_subset_insert [THEN subsetD])
  moreover have "rw_readers mu' = 0" if "rw_writer mu' = Writing"
    using change(4) [OF that] assms(2) by (auto simp: lock_inv_def)
  ultimately show ?thesis
    using assms(2) change(1-3) count [of reads] count [of announces] count [of writes] unfolding move(1) lock_inv_def by simp
qed

lemma reachable_lock_inv: "reachable_locked names ivl c \<Longrightarrow> lock_inv c"
proof (induction rule: reachable_locked.induct)
  case (start m)
  then show ?case by (simp add: lock_inv_def in_method_def how_many_def holder_defs)
next
  case (step c c')
  then show ?case using lock_inv_step by blast
qed

text \<open>A goroutine that writes excludes every other one that reads or writes.\<close>

lemma writer_alone:
  assumes "lock_inv c" "i < length (lm_threads c)" "writes (lm_threads c ! i)" "j < length (lm_threads c)" "i \<noteq> j"
  shows "\<not> holds (lm_threads c ! j)"
proof -
  have "0 < how_many writes (lm_threads c)" using assms(2,3) by (intro how_many_pos [of "lm_threads c ! i"]) auto
  then have w: "rw_writer (lm_mutex c) = Writing" "how_many writes (lm_threads c) = 1" "how_many reads (lm_threads c) = 0" "how_many announces (lm_threads c) = 0"
    using assms(1) by (auto simp: lock_inv_def of_bool_def split: if_splits)
  then have "\<not> writes (lm_threads c ! j)" using how_many_two [OF assms(2,4,5), of writes] assms(3) by auto
  with w assms(4) show ?thesis by (simp add: holds_def how_many_0)
qed

lemma reader_no_writer:
  assumes "lock_inv c" "g \<in> set (lm_threads c)" "reads g" "h \<in> set (lm_threads c)"
  shows "\<not> writes h"
proof -
  have "0 < how_many reads (lm_threads c)" using assms(2,3) by (rule how_many_pos)
  then have "how_many writes (lm_threads c) = 0" using assms(1) by (auto simp: lock_inv_def of_bool_def split: if_splits)
  with assms(4) show ?thesis by (simp add: how_many_0)
qed

lemma reading_holds: "in_method (t, Read # is) \<Longrightarrow> reads (t, Read # is)"
  by (erule in_method_cases) (auto simp: holder_defs)

lemma writing_holds: "in_method (t, a # is) \<Longrightarrow> a \<in> {SetFlow, SetNames, SetLastScan} \<Longrightarrow> writes (t, a # is)"
  by (erule in_method_cases) (auto simp: holder_defs)

section \<open>Critical sections are steps\<close>

text \<open>A goroutine between the assignments of \<open>scanOnce\<close>, and what it has assigned so far.\<close>

definition mid :: "goroutine \<Rightarrow> bool" where
  "mid g \<longleftrightarrow> snd g \<noteq> [] \<and> hd (snd g) \<in> {SetNames, SetLastScan}"

fun assigned :: "goroutine \<Rightarrow> Matcher \<Rightarrow> Matcher" where
  "assigned (Scanning env f [] nms ret, SetNames # is) m = m\<lparr>flowToPID := f\<rparr>"
| "assigned (Scanning env f [] nms ret, SetLastScan # is) m = m\<lparr>flowToPID := f, pidNames := nms\<rparr>"
| "assigned g m = m"

text \<open>The simulation: the machine of the critical sections has the same goroutines, and the same matcher up to the
  assignments that the goroutine with the write lock has made.\<close>

definition same_view :: "locked \<Rightarrow> machine \<Rightarrow> bool" where
  "same_view c a \<longleftrightarrow>
     mc_threads a = map fst (lm_threads c) \<and> mc_read a = lm_read c \<and> mc_started a = lm_started c \<and>
     (\<forall>g \<in> set (lm_threads c). mid g \<longrightarrow> lm_matcher c = assigned g (mc_matcher a)) \<and>
     ((\<forall>g \<in> set (lm_threads c). \<not> mid g) \<longrightarrow> lm_matcher c = mc_matcher a)"

lemma mid_writes: "in_method g \<Longrightarrow> mid g \<Longrightarrow> writes g"
  by (cases g; cases "snd g") (auto simp: mid_def intro: writing_holds)

text \<open>A local step does not depend on the matcher.\<close>

lemma local_step:
  assumes "thread_step m t m t' es ns" "thread_code t = [Local]"
  shows "thread_step m2 t m2 t' es ns"
  using assms(1)
proof (cases rule: thread_step.cases)
  case (resolve env f pid pids nms ret)
  then have "pid = 0" using assms(2) by (simp add: code_defs split: if_splits)
  then have "resolve_one env m pid nms = resolve_one env m2 pid nms" by (simp add: resolve_one_def)
  with resolve show ?thesis by (simp add: thread_step.resolve)
qed (use assms(2) in \<open>auto simp: code_defs intro: thread_step.intros\<close>)

lemma updated_others:
  assumes "h \<in> set (xs[i := y])"
  shows "h = y \<or> (\<exists>j. j < length xs \<and> j \<noteq> i \<and> h = xs ! j)"
proof -
  obtain j where "j < length xs" "h = xs[i := y] ! j" using assms by (auto simp: in_set_conv_nth)
  then show ?thesis by (cases "j = i") auto
qed

lemma others_not_mid:
  assumes "lock_inv c" "i < length (lm_threads c)" "reads (lm_threads c ! i) \<or> writes (lm_threads c ! i)" "j < length (lm_threads c)" "j \<noteq> i"
  shows "\<not> mid (lm_threads c ! j)"
proof -
  have "\<not> writes (lm_threads c ! j)"
    using assms(3)
  proof
    assume "reads (lm_threads c ! i)"
    with assms show ?thesis using reader_no_writer [OF assms(1), of "lm_threads c ! i"] by simp
  next
    assume "writes (lm_threads c ! i)"
    from writer_alone [OF assms(1,2) this assms(4)] assms(5) show ?thesis by (simp add: holds_def)
  qed
  moreover have "in_method (lm_threads c ! j)" using assms(1,4) by (simp add: lock_inv_def list_all_length)
  ultimately show ?thesis using mid_writes by blast
qed

text \<open>The three ways a step of a goroutine shows in the machine of the critical sections: not at all, while nothing
  guarded is touched; not yet, while its assignments are under way; as the step of its place.\<close>

lemma view_quiet:
  assumes "same_view c a" "i < length (lm_threads c)" "\<not> mid (lm_threads c ! i)" "\<not> mid g'"
    and "mc_threads a' = (mc_threads a)[i := fst g']" "mc_matcher a' = mc_matcher a" "mc_read a' = es @ mc_read a" "mc_started a' = ns @ mc_started a"
  shows "same_view \<lparr>lm_mutex = mu', lm_matcher = lm_matcher c, lm_threads = (lm_threads c)[i := g'], lm_read = es @ lm_read c, lm_started = ns @ lm_started c\<rparr> a'"
proof -
  let ?xs = "lm_threads c"
  have "mc_threads a' = map fst (?xs[i := g'])" using assms(1,5) by (simp add: same_view_def map_update)
  moreover have "(\<exists>h \<in> set (?xs[i := g']). mid h) \<longleftrightarrow> (\<exists>h \<in> set ?xs. mid h)"
  proof
    assume "\<exists>h \<in> set (?xs[i := g']). mid h"
    then show "\<exists>h \<in> set ?xs. mid h" using assms(4) by (blast dest: updated_others intro: nth_mem)
  next
    assume "\<exists>h \<in> set ?xs. mid h"
    then obtain j where "j < length ?xs" "mid (?xs ! j)" by (auto simp: in_set_conv_nth)
    moreover from this have "j \<noteq> i" using assms(3) by auto
    ultimately show "\<exists>h \<in> set (?xs[i := g']). mid h" by (metis length_list_update nth_list_update_neq nth_mem)
  qed
  moreover have "h \<in> set ?xs" if "h \<in> set (?xs[i := g'])" "mid h" for h
    using updated_others [OF that(1)] that(2) assms(4) by auto
  ultimately show ?thesis using assms(1,6-) unfolding same_view_def by (auto 4 3)
qed

lemma view_alone:
  assumes "lock_inv c" "i < length (lm_threads c)" "reads (lm_threads c ! i) \<or> writes (lm_threads c ! i)"
    and "mc_threads a = (map fst (lm_threads c))[i := fst g']" "mc_read a = es @ lm_read c" "mc_started a = ns @ lm_started c"
    and "m' = (if mid g' then assigned g' (mc_matcher a) else mc_matcher a)"
  shows "same_view \<lparr>lm_mutex = mu', lm_matcher = m', lm_threads = (lm_threads c)[i := g'], lm_read = es @ lm_read c, lm_started = ns @ lm_started c\<rparr> a"
proof -
  have others: "h = g'" if "h \<in> set ((lm_threads c)[i := g'])" "mid h" for h
    using updated_others [OF that(1)] others_not_mid [OF assms(1-3)] that(2) by blast
  moreover have "g' \<in> set ((lm_threads c)[i := g'])" using assms(2) by (simp add: set_update_memI)
  ultimately show ?thesis using assms(4-) by (auto simp: same_view_def map_update)
qed

lemma view_matcher:
  assumes "lock_inv c" "same_view c a" "i < length (lm_threads c)" "reads (lm_threads c ! i) \<or> writes (lm_threads c ! i)"
  shows "lm_matcher c = (if mid (lm_threads c ! i) then assigned (lm_threads c ! i) (mc_matcher a) else mc_matcher a)"
proof (cases "mid (lm_threads c ! i)")
  case False
  then have "\<forall>g \<in> set (lm_threads c). \<not> mid g"
    using others_not_mid [OF assms(1,3,4)] by (metis in_set_conv_nth)
  with False assms(2) show ?thesis by (simp add: same_view_def)
qed (use assms(2,3) in \<open>simp add: same_view_def\<close>)

text \<open>An access under the mutex.\<close>

lemma view_access:
  assumes inv: "lock_inv c" and sim: "same_view c a" and i: "i < length (lm_threads c)" "lm_threads c ! i = (t, x # is)"
    and x: "x \<in> {Read, SetFlow, SetNames, SetLastScan}" and step: "instr_step (lm_mutex c) (lm_matcher c) (t, x # is) mu' m' g' es ns"
  shows "\<exists>a'. (a' = a \<or> machine_step a a') \<and>
    same_view \<lparr>lm_mutex = mu', lm_matcher = m', lm_threads = (lm_threads c)[i := g'], lm_read = es @ lm_read c, lm_started = ns @ lm_started c\<rparr> a'"
proof -
  have meth: "in_method (t, x # is)" using inv i by (metis list_all_length lock_inv_def)
  have holder: "reads (lm_threads c ! i) \<or> writes (lm_threads c ! i)"
    using reading_holds [of t "is"] writing_holds [of t x "is"] meth x i by auto
  note m = view_matcher [OF inv sim i(1) holder, unfolded i(2)]
  note alone = view_alone [OF inv i(1) holder, where mu' = mu']
  have a: "mc_threads a = map fst (lm_threads c)" "mc_read a = lm_read c" "mc_started a = lm_started c" "mc_threads a ! i = t" "i < length (mc_threads a)"
    using sim i by (simp_all add: same_view_def)
  have same: "(map fst (lm_threads c))[i := t] = map fst (lm_threads c)" using a(1,4) i(1) by (metis list_update_id)
  have moved: ?thesis if "thread_step (mc_matcher a) t m' (fst g') es ns" "\<not> mid g'"
  proof -
    let ?a = "\<lparr>mc_matcher = m', mc_threads = (mc_threads a)[i := fst g'], mc_read = es @ mc_read a, mc_started = ns @ mc_started a\<rparr>"
    have "machine_step a ?a" using that(1) a(4,5) by (intro machine_step.move) simp_all
    moreover have "same_view \<lparr>lm_mutex = mu', lm_matcher = m', lm_threads = (lm_threads c)[i := g'], lm_read = es @ lm_read c, lm_started = ns @ lm_started c\<rparr> ?a"
      by (rule alone) (use a that(2) in simp_all)
    ultimately show ?thesis by blast
  qed
  have waits: ?thesis if "es = []" "ns = []" "fst g' = t" "m' = assigned g' (mc_matcher a)" "mid g'"
    using alone [of a g' "[]" "[]" m'] a same that by auto
  from step show ?thesis
  proof (cases rule: instr_step.cases)
    case (read t')
    then show ?thesis using moved m in_method_access [OF meth] by (auto simp: mid_def)
  next
    case (setFlow env f nms ret)
    have "hd is = SetNames" "is \<noteq> []" using meth setFlow by (auto elim: in_method_cases)
    then show ?thesis using waits m setFlow by (cases "is") (simp_all add: mid_def)
  next
    case (setNames env f nms ret)
    have "hd is = SetLastScan" "is \<noteq> []" using meth setNames by (auto elim: in_method_cases)
    then show ?thesis using waits m setNames by (cases "is") (simp_all add: mid_def)
  next
    case (setLastScan env f nms ret)
    have "m' = commit env f nms (mc_matcher a)" using m setLastScan by (simp add: mid_def commit_def)
    then show ?thesis
      using moved setLastScan thread_step.replace [of "mc_matcher a" env f nms ret] in_method_access [OF meth] by (auto simp: mid_def)
  qed (use x in auto)
qed

text \<open>An instruction that neither accesses a field nor is a local step.\<close>

lemma quiet_step:
  assumes "instr_step mu m (t, k) mu' m' g' es ns" "in_method (t, k)"
    and "\<not> (k \<noteq> [] \<and> hd k \<in> {Read, SetFlow, SetNames, SetLastScan})" "k \<noteq> [Local]"
  shows "fst g' = t \<and> m' = m \<and> es = [] \<and> ns = [] \<and> \<not> mid g'"
  using assms(1)
proof (cases rule: instr_step.cases)
  case enter
  then show ?thesis using thread_code_forms [of t] by (auto simp: mid_def simp del: thread_code.simps)
qed (use assms(2-) in \<open>auto simp: mid_def elim: in_method_cases\<close>)

lemma view_step:
  assumes "locked_step c c'" "lock_inv c" "same_view c a"
  shows "\<exists>a'. (a' = a \<or> machine_step a a') \<and> same_view c' a'"
  using assms(1)
proof (cases rule: locked_step.cases)
  case (query key)
  have "same_view c' (a\<lparr>mc_threads := mc_threads a @ [Ask key]\<rparr>)"
    using assms(3) unfolding query by (auto simp: same_view_def mid_def)
  then show ?thesis using machine_step.query by blast
next
  case (move i mu' m' g' es ns)
  obtain t k where g: "lm_threads c ! i = (t, k)" by (rule prod.exhaust)
  have meth: "in_method (t, k)" using assms(2) move(2) g by (metis list_all_length lock_inv_def)
  have a: "mc_threads a = map fst (lm_threads c)" "mc_read a = lm_read c" "mc_started a = lm_started c"
    using assms(3) by (simp_all add: same_view_def)
  from move(3) have step: "instr_step (lm_mutex c) (lm_matcher c) (t, k) mu' m' g' es ns" by (simp add: g)
  show ?thesis
  proof (cases "k \<noteq> [] \<and> hd k \<in> {Read, SetFlow, SetNames, SetLastScan}")
    case True
    then obtain x k' where k: "k = x # k'" and x: "x \<in> {Read, SetFlow, SetNames, SetLastScan}" by (cases k) auto
    from view_access [OF assms(2,3) move(2) g [unfolded k] x step [unfolded k]] show ?thesis unfolding move(1) .
  next
    case False
    then have gi: "\<not> mid (lm_threads c ! i)" by (auto simp: g mid_def)
    note quiet = view_quiet [OF assms(3) move(2) gi]
    show ?thesis
    proof (cases "k = [Local]")
      case True
      then have code: "thread_code t = [Local]" using meth by (auto elim: in_method_cases)
      from step True obtain t' where l: "thread_step (lm_matcher c) t (lm_matcher c) t' es ns" "g' = (t', [])" "m' = lm_matcher c"
        by (auto elim: instr_stepE)
      let ?a = "\<lparr>mc_matcher = mc_matcher a, mc_threads = (mc_threads a)[i := t'], mc_read = es @ mc_read a, mc_started = ns @ mc_started a\<rparr>"
      have "machine_step a ?a" using local_step [OF l(1) code] move(2) g a by (intro machine_step.move) simp_all
      moreover have "same_view c' ?a" unfolding move(1) l(3) by (rule quiet) (simp_all add: l(2) mid_def)
      ultimately show ?thesis by blast
    next
      case no_local: False
      have q: "fst g' = t" "m' = lm_matcher c" "es = []" "ns = []" "\<not> mid g'"
        using quiet_step [OF step meth] False no_local by auto
      have "(mc_threads a)[i := t] = mc_threads a" using a(1) g move(2) by (metis fst_conv list_update_id nth_map)
      then have "same_view c' a" unfolding move(1) q(2) by (intro quiet) (simp_all add: q)
      then show ?thesis by blast
    qed
  qed
qed

lemma locked_refines_threads: "reachable_locked names ivl c \<Longrightarrow> \<exists>a. reachable_machine names ivl a \<and> same_view c a"
proof (induction rule: reachable_locked.induct)
  case (start m)
  from reachable_machine.start [OF this] show ?case by (intro exI conjI) (assumption, simp add: same_view_def mid_def)
next
  case (step c c')
  then obtain a where a: "reachable_machine names ivl a" "same_view c a" by blast
  from view_step [OF step.hyps(2) reachable_lock_inv [OF step.hyps(1)] a(2)] a(1) show ?case
    by (auto intro: reachable_machine.step)
qed

section \<open>The mutex can always be released\<close>

lemma instr_step_key:
  assumes "instr_step mu m g mu' m' g' es ns" "query_key (fst g) = Some key"
  shows "query_key (fst g') = Some key"
  using assms query_step by (elim instr_stepE) auto

lemma access_moves:
  "thread_code t = [RLock, Read, RUnlock] \<or> thread_code t = [Local] \<Longrightarrow> \<exists>t' es ns. thread_step m t m t' es ns"
proof (cases t rule: thread_code.cases)
  case (1 key)
  then show ?thesis by (cases "key = []"; cases "lookupPID m key = 0") (blast intro: thread_step.intros)+
next
  case (2 key)
  then show ?thesis by (cases "stale 0 m") (blast intro: thread_step.intros)+
next
  case (5 key)
  then show ?thesis by (cases "lookupPID m key = 0") (blast intro: thread_step.intros)+
qed (auto simp: code_defs intro: thread_step.intros)

lemma holder_code: "holds g \<Longrightarrow> snd g \<noteq> []"
  by (auto simp: holds_def holder_defs)

text \<open>While somebody holds the mutex, somebody who holds it can execute an instruction.\<close>

lemma holder_moves:
  assumes "lock_inv c" "g \<in> set (lm_threads c)" "holds g"
  shows "\<exists>i mu' m' g' es ns. i < length (lm_threads c) \<and> holds (lm_threads c ! i) \<and>
    instr_step (lm_mutex c) (lm_matcher c) (lm_threads c ! i) mu' m' g' es ns"
proof -
  have *: ?thesis if "h \<in> set (lm_threads c)" "holds h" "\<exists>mu' m' g' es ns. instr_step (lm_mutex c) (lm_matcher c) h mu' m' g' es ns" for h
    using that by (metis in_set_conv_nth)
  have meth: "in_method (t, k)" if "(t, k) \<in> set (lm_threads c)" for t k
    using assms(1) that by (simp add: lock_inv_def list_all_iff)
  consider (r) h where "h \<in> set (lm_threads c)" "reads h" | (a) "announces g" "how_many reads (lm_threads c) = 0"
    | (w) "writes g" "how_many reads (lm_threads c) = 0"
    using assms(2,3) unfolding holds_def how_many_0 by blast
  then show ?thesis
  proof cases
    case r
    obtain t k where h: "h = (t, k)" by (rule prod.exhaust)
    obtain n where n: "rw_readers (lm_mutex c) = Suc n"
      using how_many_pos [of h _ reads, OF r] assms(1) by (auto simp: lock_inv_def dest: gr0_implies_Suc)
    have "k = [RUnlock] \<or> k = [Read, RUnlock] \<and> thread_code t = [RLock, Read, RUnlock]"
      using meth [of t k] r by (auto simp: h holder_defs elim!: in_method_cases)
    then have "\<exists>mu' m' g' es ns. instr_step (lm_mutex c) (lm_matcher c) h mu' m' g' es ns"
    proof
      assume "k = [RUnlock]"
      then show ?thesis unfolding h using instr_step.runlock [OF n] by blast
    next
      assume k: "k = [Read, RUnlock] \<and> thread_code t = [RLock, Read, RUnlock]"
      then obtain t' es ns where "thread_step (lm_matcher c) t (lm_matcher c) t' es ns" using access_moves by blast
      with k show ?thesis unfolding h using instr_step.read by blast
    qed
    with r show ?thesis by (intro *) (auto simp: holds_def)
  next
    case a
    obtain t k where g: "g = (t, k)" by (rule prod.exhaust)
    have "rw_writer (lm_mutex c) = Announced" "rw_readers (lm_mutex c) = 0"
      using how_many_pos [of g _ announces, OF assms(2) a(1)] a(2) assms(1) by (auto simp: lock_inv_def of_bool_def split: if_splits)
    moreover have "\<exists>k'. k = Drain # k'" using meth [of t k] a(1) assms(2) by (auto simp: g holder_defs elim!: in_method_cases)
    ultimately show ?thesis using instr_step.drain assms(2,3) by (intro * [of g]) (auto simp: g, blast)
  next
    case w
    obtain t k where g: "g = (t, k)" by (rule prod.exhaust)
    have "rw_writer (lm_mutex c) = Writing"
      using how_many_pos [of g _ writes, OF assms(2) w(1)] assms(1) by (auto simp: lock_inv_def of_bool_def split: if_splits)
    moreover have "k = [Unlock] \<or> (\<exists>env f nms ret x k'. t = Scanning env f [] nms ret \<and> k = x # k' \<and> x \<in> {SetFlow, SetNames, SetLastScan})"
      using meth [of t k] w(1) assms(2) by (auto simp: g holder_defs elim!: in_method_cases)
    ultimately have "\<exists>mu' m' g' es ns. instr_step (lm_mutex c) (lm_matcher c) g mu' m' g' es ns"
      unfolding g by (blast intro: instr_step.unlock instr_step.setFlow instr_step.setNames instr_step.setLastScan)
    with assms(2,3) show ?thesis by (rule *)
  qed
qed

text \<open>The instructions left to those who hold the mutex.\<close>

definition busy :: "locked \<Rightarrow> nat" where
  "busy c = sum_list (map (\<lambda>g. if holds g then length (snd g) else 0) (lm_threads c))"

lemma release_step:
  assumes "lock_inv c" "g \<in> set (lm_threads c)" "holds g"
  shows "\<exists>c'. locked_step c c' \<and> busy c' < busy c \<and> length (lm_threads c') = length (lm_threads c) \<and>
    (\<forall>j key. j < length (lm_threads c) \<longrightarrow> query_key (fst (lm_threads c ! j)) = Some key \<longrightarrow> query_key (fst (lm_threads c' ! j)) = Some key)"
proof -
  obtain i mu' m' g' es ns where i: "i < length (lm_threads c)" "holds (lm_threads c ! i)"
    and step: "instr_step (lm_mutex c) (lm_matcher c) (lm_threads c ! i) mu' m' g' es ns"
    using holder_moves [OF assms] by blast
  let ?c = "\<lparr>lm_mutex = mu', lm_matcher = m', lm_threads = (lm_threads c)[i := g'], lm_read = es @ lm_read c, lm_started = ns @ lm_started c\<rparr>"
  have "length (snd g') < length (snd (lm_threads c ! i))" using step holder_code [OF i(2)] by (auto elim!: instr_stepE)
  moreover define b where "b = map (\<lambda>g. if holds g then length (snd g) else 0) (lm_threads c)"
  ultimately have lt: "(if holds g' then length (snd g') else 0) < b ! i" "i < length b" using i by auto
  have "busy ?c = sum_list (b[i := if holds g' then length (snd g') else 0])" by (simp add: busy_def b_def map_update)
  also have "\<dots> < sum_list b" using sum_list_update [OF lt(2)] lt elem_le_sum_list [OF lt(2)] by simp
  finally have "busy ?c < busy c" by (simp add: busy_def b_def)
  moreover have "locked_step c ?c" using i(1) step by (rule locked_step.move)
  moreover have "query_key (fst ((lm_threads c)[i := g'] ! j)) = Some key" if "j < length (lm_threads c)" "query_key (fst (lm_threads c ! j)) = Some key" for j key
    using that instr_step_key [OF step] by (cases "j = i") auto
  ultimately show ?thesis by (intro exI [of _ ?c]) simp
qed

lemma mutex_released:
  assumes "lock_inv c"
  shows "\<exists>c'. locked_step\<^sup>*\<^sup>* c c' \<and> lock_inv c' \<and> (\<forall>g \<in> set (lm_threads c'). \<not> holds g) \<and> length (lm_threads c') = length (lm_threads c) \<and>
    (\<forall>j key. j < length (lm_threads c) \<longrightarrow> query_key (fst (lm_threads c ! j)) = Some key \<longrightarrow> query_key (fst (lm_threads c' ! j)) = Some key)"
  using assms
proof (induction "busy c" arbitrary: c rule: less_induct)
  case less
  show ?case
  proof (cases "\<exists>g \<in> set (lm_threads c). holds g")
    case True
    then obtain c1 where c1: "locked_step c c1" "busy c1 < busy c" "length (lm_threads c1) = length (lm_threads c)"
        "\<forall>j key. j < length (lm_threads c) \<longrightarrow> query_key (fst (lm_threads c ! j)) = Some key \<longrightarrow> query_key (fst (lm_threads c1 ! j)) = Some key"
      using release_step [OF less.prems] by blast
    from less.hyps [OF c1(2) lock_inv_step [OF c1(1) less.prems]] c1 show ?thesis
      by (auto intro: converse_rtranclp_into_rtranclp)
  qed (use less.prems in blast)
qed

section \<open>A query on its own\<close>

text \<open>The steps of one goroutine with the mutex and the matcher while all others rest.\<close>

definition solo :: "RWMutex \<times> Matcher \<times> goroutine \<Rightarrow> RWMutex \<times> Matcher \<times> goroutine \<Rightarrow> bool" where
  "solo = (\<lambda>(mu, m, g) (mu', m', g'). \<exists>es ns. instr_step mu m g mu' m' g' es ns)"

abbreviation free :: RWMutex where "free \<equiv> \<lparr>rw_readers = 0, rw_writer = NoWriter\<rparr>"

lemma solo_step: "instr_step mu m g mu' m' g' es ns \<Longrightarrow> solo\<^sup>*\<^sup>* (mu', m', g') y \<Longrightarrow> solo\<^sup>*\<^sup>* (mu, m, g) y"
  by (rule converse_rtranclp_into_rtranclp) (auto simp: solo_def)

text \<open>The method of a place, executed from its start: it ends with the mutex released, and has done the step of the
  place.\<close>

lemma solo_place:
  assumes "\<nexists>key ans. t = Done key ans"
  shows "\<exists>m' t' es ns. solo\<^sup>*\<^sup>* (free, m, (t, thread_code t)) (free, m', (t', [])) \<and> thread_step m t m' t' es ns"
proof -
  consider (l) "thread_code t = [Local]" | (r) "thread_code t = [RLock, Read, RUnlock]"
    | (w) env f nms ret where "t = Scanning env f [] nms ret" "thread_code t = [Announce, Drain, SetFlow, SetNames, SetLastScan, Unlock]"
    using thread_code_forms [of t] assms by blast
  then show ?thesis
  proof cases
    case l
    then obtain t' es ns where t: "thread_step m t m t' es ns" using access_moves [of t m] by blast
    from solo_step [OF instr_step.local [OF t] rtranclp.rtrancl_refl] t l show ?thesis by metis
  next
    case r
    then obtain t' es ns where t: "thread_step m t m t' es ns" using access_moves [of t m] by blast
    have "solo\<^sup>*\<^sup>* (free, m, (t, [RLock, Read, RUnlock])) (free, m, (t', []))"
      by (rule solo_step [OF instr_step.rlock] solo_step [OF instr_step.read [OF t]] solo_step [OF instr_step.runlock] | simp)+
    with t r show ?thesis by metis
  next
    case w
    have "solo\<^sup>*\<^sup>* (free, m, (Scanning env f [] nms ret, [Announce, Drain, SetFlow, SetNames, SetLastScan, Unlock]))
        (free, commit env f nms m, (resume ret, []))"
      by (rule solo_step [OF instr_step.announce] solo_step [OF instr_step.drain] solo_step [OF instr_step.setFlow]
          solo_step [OF instr_step.setNames] solo_step [OF instr_step.setLastScan] solo_step [OF instr_step.unlock] | simp add: commit_def)+
    with thread_step.replace w show ?thesis by metis
  qed
qed

lemma solo_answer: "query_key t = Some key \<Longrightarrow> \<exists>m' ans. solo\<^sup>*\<^sup>* (free, m, (t, [])) (free, m', (Done key ans, []))"
proof (induction "stage t" arbitrary: t m rule: wf_induct_rule [OF wf_lex_prod [OF wf_less_than wf_less_than]])
  case 1
  show ?case
  proof (cases "\<exists>k ans. t = Done k ans")
    case True
    with 1(2) show ?thesis by (auto intro!: exI [of _ m] rtranclp.rtrancl_refl)
  next
    case False
    obtain m' t' es ns where t: "solo\<^sup>*\<^sup>* (free, m, (t, thread_code t)) (free, m', (t', []))" "thread_step m t m' t' es ns"
      using solo_place [OF False] by blast
    have "query_key t' = Some key" "(stage t', stage t) \<in> less_than <*lex*> less_than" using query_step [OF t(2) 1(2)] by simp_all
    with 1(1) obtain m2 ans where "solo\<^sup>*\<^sup>* (free, m', (t', [])) (free, m2, (Done key ans, []))" by blast
    with t(1) have "solo\<^sup>*\<^sup>* (free, m, (t, thread_code t)) (free, m2, (Done key ans, []))" by (rule rtranclp_trans)
    from solo_step [OF instr_step.enter [OF False] this] show ?thesis by blast
  qed
qed

lemma solo_answer_idle:
  assumes "query_key t = Some key" "in_method (t, k)" "\<not> holds (t, k)"
  shows "\<exists>m' ans. solo\<^sup>*\<^sup>* (free, m, (t, k)) (free, m', (Done key ans, []))"
proof (cases "k = []")
  case True
  then show ?thesis using solo_answer [OF assms(1)] by simp
next
  case False
  from assms(2,3) False have k: "k = thread_code t"
    by (auto simp: holds_def holder_defs code_defs elim!: in_method_cases)
  with False have d: "\<nexists>key ans. t = Done key ans" by auto
  obtain m' t' es ns where t: "solo\<^sup>*\<^sup>* (free, m, (t, thread_code t)) (free, m', (t', []))" "thread_step m t m' t' es ns"
    using solo_place [OF d] by blast
  obtain m2 ans where "solo\<^sup>*\<^sup>* (free, m', (t', [])) (free, m2, (Done key ans, []))"
    using solo_answer query_step [OF t(2) assms(1)] by blast
  with t(1) show ?thesis unfolding k by (blast intro: rtranclp_trans)
qed

lemma locked_runs_solo:
  assumes "solo\<^sup>*\<^sup>* x y" "x = (lm_mutex c, lm_matcher c, lm_threads c ! i)" "i < length (lm_threads c)"
  shows "\<exists>c'. locked_step\<^sup>*\<^sup>* c c' \<and> y = (lm_mutex c', lm_matcher c', lm_threads c' ! i) \<and> length (lm_threads c') = length (lm_threads c)"
  using assms
proof (induction rule: rtranclp_induct)
  case (step y z)
  then obtain c1 where c1: "locked_step\<^sup>*\<^sup>* c c1" "y = (lm_mutex c1, lm_matcher c1, lm_threads c1 ! i)" "length (lm_threads c1) = length (lm_threads c)" by blast
  obtain mu' m' g' es ns where z: "z = (mu', m', g')" "instr_step (lm_mutex c1) (lm_matcher c1) (lm_threads c1 ! i) mu' m' g' es ns"
    using step.hyps(2) c1(2) by (cases z) (auto simp: solo_def)
  from c1(1) locked_step.move [OF _ z(2)] c1(3) step.prems(2)
  have "locked_step\<^sup>*\<^sup>* c \<lparr>lm_mutex = mu', lm_matcher = m', lm_threads = (lm_threads c1)[i := g'], lm_read = es @ lm_read c1, lm_started = ns @ lm_started c1\<rparr>"
    by (auto intro: rtranclp.rtrancl_into_rtrancl)
  with z(1) c1(3) step.prems(2) show ?case by (intro exI [of _ "\<lparr>lm_mutex = mu', lm_matcher = m', lm_threads = (lm_threads c1)[i := g'],
      lm_read = es @ lm_read c1, lm_started = ns @ lm_started c1\<rparr>"]) simp
qed blast

lemma free_when_idle: "lock_inv c \<Longrightarrow> \<forall>g \<in> set (lm_threads c). \<not> holds g \<Longrightarrow> lm_mutex c = free"
proof -
  assume inv: "lock_inv c" and "\<forall>g \<in> set (lm_threads c). \<not> holds g"
  then have "how_many reads (lm_threads c) = 0" "how_many announces (lm_threads c) = 0" "how_many writes (lm_threads c) = 0"
    by (simp_all add: holds_def how_many_0)
  then have "rw_readers (lm_mutex c) = 0" "rw_writer (lm_mutex c) = NoWriter"
    using inv by (simp_all add: lock_inv_def) (cases "rw_writer (lm_mutex c)"; simp)
  then show "lm_mutex c = free" by simp
qed

section \<open>The steps of a query are bounded\<close>

text \<open>The stage of a query, and within it the instructions up to its access; after an access the release is left.\<close>

definition rank :: "goroutine \<Rightarrow> (nat \<times> nat) \<times> nat" where
  "rank g = (stage (fst g), if set (snd g) \<inter> {Read, Local, SetLastScan} \<noteq> {} then length (snd g) else 7 + length (snd g))"

lemma thread_code_short: "length (thread_code t) < 7"
  using thread_code_forms [of t] by (auto simp del: thread_code.simps)

lemma instr_step_rank:
  assumes "instr_step mu m g mu' m' g' es ns" "query_key (fst g) = Some key"
  shows "(rank g', rank g) \<in> (less_than <*lex*> less_than) <*lex*> less_than"
  using assms(1)
proof (cases rule: instr_step.cases)
  case (enter t)
  then show ?thesis using thread_code_short [of t] thread_code_forms [of t] by (auto simp: rank_def simp del: thread_code.simps)
next
  case (read t t' k)
  then show ?thesis using query_step [of m t m t'] assms(2) by (auto simp: rank_def)
next
  case (local t t' k)
  then show ?thesis using query_step [of m t m t'] assms(2) by (auto simp: rank_def)
next
  case (setLastScan env f nms ret k)
  then show ?thesis using assms(2) by (auto simp: rank_def resume_def)
qed (auto simp: rank_def)

section \<open>Properties\<close>

text \<open>The mutex is used correctly. A goroutine about to read a guarded field is registered as a reader, one about to
  assign one has the write lock and excludes every other goroutine from reading and assigning; and a call
  of \<open>RLock\<close> or \<open>Lock\<close> is only made by a goroutine that does not hold the mutex.\<close>

theorem locks_exclude:
  assumes "reachable_locked names ivl c" "i < length (lm_threads c)" "lm_threads c ! i = (t, x # is)"
  shows "(x = Read \<longrightarrow> 0 < rw_readers (lm_mutex c)) \<and>
    (x \<in> {SetFlow, SetNames, SetLastScan} \<longrightarrow> rw_writer (lm_mutex c) = Writing \<and> rw_readers (lm_mutex c) = 0 \<and>
       (\<forall>j y t' k. j < length (lm_threads c) \<longrightarrow> j \<noteq> i \<longrightarrow> lm_threads c ! j = (t', y # k) \<longrightarrow> y \<notin> {Read, SetFlow, SetNames, SetLastScan})) \<and>
    (x \<in> {RLock, Announce} \<longrightarrow> \<not> holds (t, x # is))"
proof -
  have inv: "lock_inv c" by (rule reachable_lock_inv [OF assms(1)])
  have all: "in_method (lm_threads c ! j)" if "j < length (lm_threads c)" for j using inv that by (simp add: lock_inv_def list_all_length)
  have meth: "in_method (t, x # is)" using all [OF assms(2)] assms(3) by simp
  have mem: "(t, x # is) \<in> set (lm_threads c)" using assms(2,3) by (metis nth_mem)
  have "0 < rw_readers (lm_mutex c)" if "x = Read"
    using how_many_pos [of _ _ reads, OF mem] reading_holds meth inv that by (simp add: lock_inv_def)
  moreover have "rw_writer (lm_mutex c) = Writing \<and> rw_readers (lm_mutex c) = 0 \<and>
      (\<forall>j y t' k. j < length (lm_threads c) \<longrightarrow> j \<noteq> i \<longrightarrow> lm_threads c ! j = (t', y # k) \<longrightarrow> y \<notin> {Read, SetFlow, SetNames, SetLastScan})"
    if x: "x \<in> {SetFlow, SetNames, SetLastScan}"
  proof -
    have w: "writes (t, x # is)" by (rule writing_holds [OF meth x])
    have "rw_writer (lm_mutex c) = Writing" "rw_readers (lm_mutex c) = 0"
      using how_many_pos [of _ _ writes, OF mem w] inv by (auto simp: lock_inv_def of_bool_def split: if_splits)
    moreover have "y \<notin> {Read, SetFlow, SetNames, SetLastScan}" if "j < length (lm_threads c)" "j \<noteq> i" "lm_threads c ! j = (t', y # k)" for j y t' k
      using writer_alone [OF inv assms(2) _ that(1)] w all [OF that(1)] that(2,3) assms(3) reading_holds [of t' k] writing_holds [of t' y k]
      by (auto simp: holds_def)
    ultimately show ?thesis by blast
  qed
  moreover have "\<not> holds (t, x # is)" if "x \<in> {RLock, Announce}"
    using meth that by (auto simp: holds_def holder_defs elim!: in_method_cases)
  ultimately show ?thesis by blast
qed

text \<open>The critical sections act as one step, whatever is interleaved: every state of the machine with the mutex shows,
  up to the assignments under way, a state that the machine of the critical sections reaches with the
  same goroutines; so what holds of the answers there holds here.\<close>

theorem locks_refine:
  assumes "reachable_locked names ivl c"
  shows "\<exists>a. reachable_machine names ivl a \<and> mc_threads a = map fst (lm_threads c) \<and> mc_read a = lm_read c \<and> mc_started a = lm_started c \<and>
    (rw_writer (lm_mutex c) \<noteq> Writing \<longrightarrow> lm_matcher c = mc_matcher a)"
proof -
  obtain a where a: "reachable_machine names ivl a" "same_view c a" using locked_refines_threads [OF assms] by blast
  note inv = reachable_lock_inv [OF assms]
  have "lm_matcher c = mc_matcher a" if "rw_writer (lm_mutex c) \<noteq> Writing"
  proof -
    have "\<forall>g \<in> set (lm_threads c). \<not> writes g" using inv that by (simp add: lock_inv_def how_many_0)
    then have "\<forall>g \<in> set (lm_threads c). \<not> mid g" using inv mid_writes by (auto simp: lock_inv_def list_all_iff)
    with a(2) show ?thesis by (simp add: same_view_def)
  qed
  with a show ?thesis by (auto simp: same_view_def)
qed

text \<open>C8. The mutex never leaves a query stuck: in every state that the goroutines can reach with their calls of \<open>RLock\<close>,
  \<open>RUnlock\<close>, \<open>Lock\<close> and \<open>Unlock\<close>, every query that has been asked can still be answered, with the mutex
  released by it, so that there is no deadlock and no lock is kept; and a query executes only finitely
  many instructions of its own, whatever the other goroutines do in between.\<close>

theorem query_can_finish:
  assumes "reachable_locked names ivl c" "i < length (lm_threads c)" "query_key (fst (lm_threads c ! i)) = Some key"
  shows "(\<exists>c' ans. locked_step\<^sup>*\<^sup>* c c' \<and> lm_threads c' ! i = (Done key ans, []) \<and> lm_mutex c' = \<lparr>rw_readers = 0, rw_writer = NoWriter\<rparr>) \<and>
    \<not> (\<exists>g mu m mu' m' es ns. g 0 = lm_threads c ! i \<and> (\<forall>k :: nat. instr_step (mu k) (m k) (g k) (mu' k) (m' k) (g (Suc k)) (es k) (ns k)))"
proof
  obtain c1 where c1: "locked_step\<^sup>*\<^sup>* c c1" "lock_inv c1" "\<forall>g \<in> set (lm_threads c1). \<not> holds g" "length (lm_threads c1) = length (lm_threads c)"
      "query_key (fst (lm_threads c1 ! i)) = Some key"
    using mutex_released [OF reachable_lock_inv [OF assms(1)]] assms(2,3) by blast
  obtain t k where g: "lm_threads c1 ! i = (t, k)" by (rule prod.exhaust)
  have "in_method (t, k)" "\<not> holds (t, k)" using c1(2-4) assms(2) g by (metis list_all_length lock_inv_def, metis nth_mem)
  then obtain m' ans where "solo\<^sup>*\<^sup>* (free, lm_matcher c1, (t, k)) (free, m', (Done key ans, []))"
    using solo_answer_idle c1(5) g by fastforce
  from locked_runs_solo [OF this, of c1 i] obtain c2 where "locked_step\<^sup>*\<^sup>* c1 c2" "lm_threads c2 ! i = (Done key ans, [])" "lm_mutex c2 = free"
    using free_when_idle [OF c1(2,3)] g c1(4) assms(2) by auto
  with c1(1) show "\<exists>c' ans. locked_step\<^sup>*\<^sup>* c c' \<and> lm_threads c' ! i = (Done key ans, []) \<and> lm_mutex c' = free"
    by (blast intro: rtranclp_trans)
next
  show "\<not> (\<exists>g mu m mu' m' es ns. g 0 = lm_threads c ! i \<and> (\<forall>k :: nat. instr_step (mu k) (m k) (g k) (mu' k) (m' k) (g (Suc k)) (es k) (ns k)))"
  proof (rule notI, elim exE conjE)
    fix g mu m mu' m' es ns
    assume g: "g 0 = lm_threads c ! i" and step: "\<forall>k :: nat. instr_step (mu k) (m k) (g k) (mu' k) (m' k) (g (Suc k)) (es k) (ns k)"
    have "query_key (fst (g k)) = Some key" for k
    proof (induction k)
      case (Suc k)
      with step show ?case by (blast intro: instr_step_key)
    qed (simp add: g assms(3))
    then have "\<forall>k. (rank (g (Suc k)), rank (g k)) \<in> (less_than <*lex*> less_than) <*lex*> less_than"
      using step instr_step_rank by blast
    then show False
      using wf_lex_prod [OF wf_lex_prod [OF wf_less_than wf_less_than] wf_less_than] unfolding wf_iff_no_infinite_down_chain
      by (elim notE) (rule exI [of _ "\<lambda>k. rank (g k)"], simp)
  qed
qed

section \<open>Witnesses\<close>

text \<open>A query that has the read lock and is about to look the pid up, while the refresh loop rests.\<close>

definition wit_locked :: locked where
  "wit_locked = \<lparr>lm_mutex = \<lparr>rw_readers = 1, rw_writer = NoWriter\<rparr>, lm_matcher = wit_matcher,
     lm_threads = [(Idle, []), (Ask ''tcp:10.0.0.1:4000'', [Read, RUnlock])], lm_read = [], lm_started = []\<rparr>"

lemma wit_locked_reach: "reachable_locked [''steam''] 0 wit_locked"
proof -
  let ?key = "''tcp:10.0.0.1:4000''" and ?r = "reachable_locked [''steam''] 0"
  note move = locked_step.move [THEN reachable_locked.step [rotated]]
  have "?r \<lparr>lm_mutex = free, lm_matcher = wit_matcher, lm_threads = [(Idle, [])], lm_read = [], lm_started = []\<rparr>"
    by (rule reachable_locked.start [OF wit_matcher_New])
  from reachable_locked.step [OF this locked_step.query [where key = ?key]]
  have "?r \<lparr>lm_mutex = free, lm_matcher = wit_matcher, lm_threads = [(Idle, []), (Ask ?key, [])], lm_read = [], lm_started = []\<rparr>" by simp
  from move [OF _ _ this, of 1] instr_step.enter [of "Ask ?key" free wit_matcher]
  have "?r \<lparr>lm_mutex = free, lm_matcher = wit_matcher, lm_threads = [(Idle, []), (Ask ?key, [RLock, Read, RUnlock])], lm_read = [], lm_started = []\<rparr>"
    by (fastforce simp: code_defs)
  from move [OF _ _ this, of 1] instr_step.rlock [of free wit_matcher "Ask ?key" "[Read, RUnlock]"]
  show ?thesis by (fastforce simp: wit_locked_def)
qed

theorem query_can_finish_witness:
  "\<exists>c' ans. locked_step\<^sup>*\<^sup>* wit_locked c' \<and> lm_threads c' ! 1 = (Done ''tcp:10.0.0.1:4000'' ans, []) \<and>
     lm_mutex c' = \<lparr>rw_readers = 0, rw_writer = NoWriter\<rparr>"
  using query_can_finish [OF wit_locked_reach, of 1 "''tcp:10.0.0.1:4000''"] by (simp add: wit_locked_def)

end
