(* ===== verification/Spec2Isabelle.thy ===== *)
theory Spec2Isabelle
  imports App_Runner Dns_Redirect Matcher_Locks
begin

text \<open>
  A verification library for nanotun, a TUN gateway that sends the traffic of a host through a SOCKS5
  proxy and lets chosen processes and addresses go around it. The program is \<^verbatim>\<open>cmd/nanotun\<close> with the
  packages under \<^verbatim>\<open>internal\<close>; file and function names below are those of the repository.

  \<^bold>\<open>The program.\<close> \<open>main\<close> merges the command line, a YAML file and the defaults into a runtime configuration,
  sets up the log and calls \<open>app.Run\<close>. That builds the upstream proxy, the process matcher, the proxy
  chain, the tunnel of tun2socks, the gateway handler and one of two drivers. The driver opens and
  configures the TUN device, installs routes and DNS redirection when asked to, and runs a packet stack
  until the context is cancelled. The stack hands each flow to the gateway handler, which relays DNS for
  the gateway address, drops LAN-only traffic, and forwards the rest to the tunnel; the tunnel dials
  through the chain, which asks the matcher and the reserved and excluded ranges whether to dial
  directly.

  \<^bold>\<open>Theories.\<close> Library: \<open>Go_Base\<close> (fact collections, type synonyms, lists and words), \<open>Go_Strings\<close>,
  \<open>Go_Netip\<close> and \<open>Go_Url\<close> (what the program uses of strings, strconv, net/netip and net/url, the last as
  in the Go release the module names), \<open>Go_Exec\<close> (commands of the operating system and when a list of
  commands undoes another). Components:
  \<^item> \<open>Net_Addr\<close>: \<^verbatim>\<open>internal/netaddr\<close>. The gateway addresses as parsed texts; \<open>IsReserved\<close> as ranges.
  \<^item> \<open>Proc_Name\<close>: \<^verbatim>\<open>internal/procname\<close>. The normal form of process names.
  \<^item> \<open>Exclude_Matcher\<close>: \<^verbatim>\<open>internal/exclude\<close>, one operation at a time. What a scan leaves in the tables, the
    invariant of reachable matchers, the answer of a query, the rate of scans of sequential queries.
  \<^item> \<open>Matcher_Threads\<close>: the same package with goroutines that interleave at the critical sections. The
    invariant, refinement of the sequential functions, the limits of the rate limit.
  \<^item> \<open>Matcher_Locks\<close>: the goroutines with their locking calls and the mutex in the state. Exclusion, that the
    critical sections act as the steps of \<open>Matcher_Threads\<close>, and that every query can always finish.
  \<^item> \<open>Proxy_Chain\<close>: \<^verbatim>\<open>internal/proxychain\<close>. When a flow is dialled directly, for every matcher that keeps the
    contract \<open>flow_matcher\<close>.
  \<^item> \<open>Dns_Relay\<close> and \<open>Gateway_Handler\<close>: \<^verbatim>\<open>internal/gateway\<close>. The relays as lists of effects on their
    connections, refinement of a relay of whole messages, framing; the dispatch of the handler.
  \<^item> \<open>Nano_Config\<close>: \<^verbatim>\<open>internal/config\<close> and \<open>loadRuntimeConfig\<close>. Merge as layers, validation, precedence.
  \<^item> \<open>Log_Writer\<close> and \<open>Nano_Logger\<close>: \<^verbatim>\<open>internal/logger\<close>. Rotation by date and size, names of files and their
    sequence numbers over a whole run with its failures, cleanup, error paths; the loggers that setups
    return, the writers they hold and which of them have a file open.
  \<^item> \<open>Tun_Conf\<close>: \<^verbatim>\<open>internal/tunconf\<close>, one function per platform.
  \<^item> \<open>Route_Parse\<close>, \<open>Auto_Route\<close>, \<open>Net_Tools\<close>, \<open>Route_Undo\<close>, \<open>Dns_Redirect\<close>: \<^verbatim>\<open>internal/autoroute\<close>. The parsers of
    command output and the PowerShell scripts; \<open>Apply\<close> of each platform; the laws of the tools, command by
    command, and what follows from them for the command lists of the program; what the cleanup of \<open>Apply\<close>
    takes back; which packets the firewall rules redirect.
  \<^item> \<open>Stack_Driver\<close>: \<^verbatim>\<open>internal/stack\<close>. Both drivers with their deferred calls, the construction of the simple
    stack and its forwarders; resources, the order of a shutdown, the footprint of a run.
  \<^item> \<open>App_Runner\<close>: \<^verbatim>\<open>internal/app\<close> and \<open>main\<close>. The proxy of an address, the wiring of a run.

  This theory joins them: the fate of a flow from the packet stack to its dialer, exclusions from the
  configuration file and the command line to the dialer of the running chain, and the footprint of the
  whole program on Linux.

  \<^bold>\<open>Interfaces.\<close> The locales and the models that interpret them: \<open>override_layers\<close> (merge of configurations),
  \<open>flow_matcher\<close> (the matcher as the chain sees it), \<open>route_installer\<close> and \<open>platform_undo\<close> (the route
  installers as the drivers see them, on Linux, Darwin and, for the first, every platform),
  \<open>packet_stack\<close> and \<open>restoring_driver\<close> (what the drivers do after the routes, for both drivers),
  \<open>relay_contract\<close> (what the handler relies on in the two DNS relays) and \<open>address_class\<close> (the reserved
  addresses as a class that ignores the mapped form).

  \<^bold>\<open>How the code is translated.\<close> Structs are records, error returns are sums or options with the error
  values of the source's messages. State is passed explicitly; package variables and objects that are
  shared (the log writers) live in a store. Deferred calls are run by \<open>deferring\<close> on every path. Loops over
  slices are structural recursion; the loops of the address, URL and number parsers that advance by more
  than one byte are recursive functions with a measure. No definition needs fuel. Ports, addresses, bytes
  and the MTU of the device are words; other integers are unbounded, with the wrap-around or saturation
  written out where the code can reach it. The order in which Go ranges over the map of interfaces is part
  of the answers of the library, and the set of pids of a scan is a list whose order does not matter.

  \<^bold>\<open>Parameters.\<close> Code of other modules and the operating system is an argument: \<open>sys\<close> (commands, host
  names), \<open>lib\<close> (the device, the packet stack, the context), \<open>scan_env\<close> (connection tables and processes of
  gopsutil, the clock), the dialers and the constructors of proxies, the file system and the YAML decoder,
  the parsed flags, \<open>log_env\<close> (clock and file system of the log). The properties on restored routes assume
  what the manuals say of single commands, on views of the world: \<open>linux_tools\<close> (\<^verbatim>\<open>ip route del\<close> takes back \<^verbatim>\<open>ip
  route add\<close>; nft adds tables, chains and rules and deletes a table with what is in it; iptables inserts a
  rule at the head of a chain and deletes the first rule with a specification; a failing command changes
  nothing) and \<open>darwin_tools\<close> (\<^verbatim>\<open>route\<close> likewise; \<^verbatim>\<open>networksetup\<close> prints the name servers of a service one per
  line and replaces them). That the cleanup lists and parsers of the program undo its own commands is proved
  from these laws. Further \<open>quiet\<close> says that the packet stack and others leave the world alone during the run.
  The property on redirected packets assumes \<open>firewall_tools\<close>, the documented meaning of hooks and rules. The
  mutex is the one the package sync documents. Concrete systems that satisfy the laws, one with nft, one
  with iptables and one for Darwin, are in the witnesses.

  \<^bold>\<open>Bounds of the model.\<close> Case folding and white space are those of ASCII. The zone of the log's clock has a
  fixed offset. Lines of more than 64 KiB, at which Go's scanner stops, are not distinguished in the
  output of the Darwin tools. The text of wrapped errors and of log records is left out.

  \<^bold>\<open>Not modelled.\<close> The other modules themselves (gVisor, tun2socks, gopsutil, pflag, the YAML decoder), the
  formatting of log records by log/slog, signal delivery (the context is done at a point the library
  chooses), the tests, the example configuration and the documents.
\<close>

section \<open>A flow from the packet stack to its dialer\<close>

text \<open>What happens to a flow the packet stack hands to the gateway handler: the handler relays it,
  drops it, or forwards it to the tunnel, which dials through the chain with the metadata of the flow.
  The tunnel is a library of the program; what the properties below use of it is their hypothesis on the
  metadata, that its destination is the local address of the endpoint.\<close>

datatype 'c flow_result = Relayed | Dropped | Dialled "string + 'c"

definition tcp_flow ::
  "Handler \<Rightarrow> int \<Rightarrow> scan_env \<Rightarrow> ('c, 'p, Matcher option) Chain \<Rightarrow> EndpointID \<Rightarrow> Metadata \<Rightarrow> 'c flow_result" where
  "tcp_flow h now env c eid md =
     (case Handler_HandleTCP h eid of
        RelayTCP r \<Rightarrow> Relayed
      | RelayUDP r \<Rightarrow> Relayed
      | Drop \<Rightarrow> Dropped
      | Forward \<Rightarrow> Dialled (fst (DialContext ShouldSkip now env c md)))"

definition udp_flow ::
  "Handler \<Rightarrow> int \<Rightarrow> scan_env \<Rightarrow> ('c, 'p, Matcher option) Chain \<Rightarrow> EndpointID \<Rightarrow> Metadata \<Rightarrow> 'p flow_result" where
  "udp_flow h now env c eid md =
     (case Handler_HandleUDP h eid of
        RelayTCP r \<Rightarrow> Relayed
      | RelayUDP r \<Rightarrow> Relayed
      | Drop \<Rightarrow> Dropped
      | Forward \<Rightarrow> Dialled (fst (DialUDP ShouldSkip now env c md)))"

definition stays_local :: "('c, 'p, 'm) Chain \<Rightarrow> Addr \<Rightarrow> bool" where
  "stays_local c dst \<longleftrightarrow> IsReserved dst \<or> (\<exists>p \<in> set (op_ExcludedPrefixes (ch_opts c)). Prefix_Contains p dst)"

lemma addrFromTCPIP_unmapped [simp]: "Unmap (addrFromTCPIP b) = addrFromTCPIP b"
  by (simp add: addrFromTCPIP_def split: option.split)

lemma gateway_reserved: "is_gateway b \<Longrightarrow> IsReserved (addrFromTCPIP b)"
  by (rule reserved.reserved_gateways) (simp add: is_gateway_def del: GatewayIPv4_value GatewayIPv6_value)

definition goes_direct ::
  "int \<Rightarrow> scan_env \<Rightarrow> ('c, 'p, Matcher option) Chain \<Rightarrow> EndpointID \<Rightarrow> Metadata \<Rightarrow> bool" where
  "goes_direct now env c eid md \<longleftrightarrow>
     stays_local c (addrFromTCPIP (LocalAddress eid)) \<or>
     (\<exists>m. op_Matcher (ch_opts c) = Some m \<and> excluded_flow now env m md)"

lemma bypasses_direct:
  assumes "Unmap (md_DstIP md) = addrFromTCPIP (LocalAddress eid)"
  shows "bypasses excluded_flow now env c md \<longleftrightarrow> goes_direct now env c eid md"
  using assms IsReserved_Unmap [of "md_DstIP md"] by (auto simp: bypasses_def stays_local_def goes_direct_def)

lemma gateway_direct: "is_gateway (LocalAddress eid) \<Longrightarrow> goes_direct now env c eid md"
  by (simp add: goes_direct_def stays_local_def gateway_reserved)

text \<open>C1. The fate of a flow, end to end. TCP: the gateway's port 53 is relayed and its other ports are
  dropped, the LAN-only ports are dropped, and everything else is dialled, directly when the destination
  is reserved or excluded or the process is, and through the upstream proxy otherwise. UDP: the same,
  except that the gateway's other ports are dialled, and always directly. So no flow for the gateway, on
  a LAN-only port, to a reserved or excluded address or of an excluded process reaches the proxy.\<close>

theorem flow_fate:
  assumes "chain_ok matcher_ok c"
    and "Unmap (md_DstIP md) = addrFromTCPIP (LocalAddress eid)"
  shows "tcp_flow (Handler_New dns) now env c eid md =
      (if is_gateway (LocalAddress eid) then (if LocalPort eid = 53 then Relayed else Dropped)
       else if LocalPort eid \<in> {139, 445} then Dropped
       else Dialled (px_DialContext (if goes_direct now env c eid md then ch_direct c else ch_upstream c) md)) \<and>
    udp_flow (Handler_New dns) now env c eid md =
      (if is_gateway (LocalAddress eid) \<and> LocalPort eid = 53 then Relayed
       else if LocalPort eid \<in> {137, 138, 445, 5353} then Dropped
       else Dialled (px_DialUDP
         (if is_gateway (LocalAddress eid) \<or> goes_direct now env c eid md then ch_direct c else ch_upstream c) md))"
proof -
  note route = proc_matcher.dial_route [OF assms(1), of now env md] bypasses_direct [OF assms(2)]
  have "tcp_flow (Handler_New dns) now env c eid md =
      (if is_gateway (LocalAddress eid) then (if LocalPort eid = 53 then Relayed else Dropped)
       else if LocalPort eid \<in> {139, 445} then Dropped
       else Dialled (px_DialContext (if goes_direct now env c eid md then ch_direct c else ch_upstream c) md))"
    by (simp add: tcp_flow_def route Handler_HandleTCP_def Handler_New_def is_gateway_def lanOnlyTCPPorts_def Let_def)
  moreover have "is_gateway (LocalAddress eid) \<or> goes_direct now env c eid md \<longleftrightarrow> goes_direct now env c eid md"
    using gateway_direct by blast
  then have "udp_flow (Handler_New dns) now env c eid md =
      (if is_gateway (LocalAddress eid) \<and> LocalPort eid = 53 then Relayed
       else if LocalPort eid \<in> {137, 138, 445, 5353} then Dropped
       else Dialled (px_DialUDP
         (if is_gateway (LocalAddress eid) \<or> goes_direct now env c eid md then ch_direct c else ch_upstream c) md))"
    by (simp add: udp_flow_def route Handler_HandleUDP_def Handler_New_def lanOnlyUDPPorts_def Let_def)
      (simp add: is_gateway_def)
  ultimately show ?thesis by blast
qed

theorem flow_fate_witness:
  "udp_flow (Handler_New (AddrPort AddrZero 0)) 3000000000 wit_env wit_chain
     \<lparr>LocalPort = 99, LocalAddress = [198, 18, 0, 1]\<rparr> (wit_md\<lparr>md_DstIP := V4 0xC6120001\<rparr>) = Dialled (Inr True)"
proof -
  have "Unmap (md_DstIP (wit_md\<lparr>md_DstIP := V4 0xC6120001\<rparr>)) =
      addrFromTCPIP (LocalAddress \<lparr>LocalPort = 99, LocalAddress = [198, 18, 0, 1]\<rparr>)"
    by (simp add: addrFromTCPIP_def AddrFromSlice_def word_of_bytes_def)
  from flow_fate [OF wit_chain_ok this, THEN conjunct2] show ?thesis
    by (simp add: is_gateway_def addrFromTCPIP_def AddrFromSlice_def word_of_bytes_def wit_chain_def Chain_New_def wit_proxy_def)
qed

section \<open>The configured system\<close>

text \<open>The chain that a run wires up satisfies the hypothesis of the flow properties.\<close>

lemma wired_chain_ok: "chain_ok matcher_ok (wired_chain NewDirect upstream cfg)"
  by (simp add: chain_ok_def wired_chain_def Chain_New_def matcher_ok_New)

lemma wired_chain_fields:
  "ch_direct (wired_chain d u cfg) = d" "ch_upstream (wired_chain d u cfg) = u"
  "op_Matcher (ch_opts (wired_chain d u cfg)) = Some (Matcher_New (rt_ExcludedProcesses cfg) (rt_ExcludeRefresh cfg))"
  "op_ExcludedPrefixes (ch_opts (wired_chain d u cfg)) = rt_ExcludedIPs cfg"
  by (simp_all add: wired_chain_def Chain_New_def)

text \<open>The chain of a run later on: its matcher has been started, has scanned and has answered queries.\<close>

definition running_chain :: "('c, 'p) Proxy \<Rightarrow> ('c, 'p) Proxy \<Rightarrow> Runtime \<Rightarrow> Matcher \<Rightarrow> ('c, 'p, Matcher option) Chain" where
  "running_chain NewDirect upstream cfg m = Chain_New NewDirect upstream \<lparr>op_Matcher = Some (Some m), op_ExcludedPrefixes = rt_ExcludedIPs cfg\<rparr>"

text \<open>The tables of the matcher, or those of the scan that the query starts, attribute a flow to a process whose name
  has a given normal form. The scan is started when the flow is unknown and the last scan is more than a
  second old; it keeps a name it knows for the pid.\<close>

definition attributed :: "int \<Rightarrow> scan_env \<Rightarrow> Matcher \<Rightarrow> string \<Rightarrow> string \<Rightarrow> bool" where
  "attributed now env m key name \<longleftrightarrow>
     (lookupPID m key \<noteq> 0 \<and> pidNames m (lookupPID m key) = Some name) \<or>
     (lookupPID m key = 0 \<and> now - lastScan m > second_ns \<and>
      (\<exists>pid. pid \<noteq> 0 \<and> map_of (rev (scan_entries env)) key = Some pid \<and>
         (if lookupName m pid \<noteq> [] then lookupName m pid = name
          else process_exists env pid \<and> (\<exists>n. process_Name env pid = Some n \<and> Normalize n = name))))"

lemma attributed_owner:
  assumes "attributed now env m (flowKey env (md_Network md) (md_SourceAddrPort md)) name" "AddrPort_IsValid (md_SourceAddrPort md)"
  shows "owner_name (query_state now env m md) (flowKey env (md_Network md) (md_SourceAddrPort md)) = Some name"
proof (cases "lookupPID m (flowKey env (md_Network md) (md_SourceAddrPort md)) = 0")
  case False
  then have "\<not> rescans now env m md" by (simp add: rescans_def Let_def)
  with False assms(1) show ?thesis
    by (auto simp: attributed_def query_state_def owner_name_def lookupPID_def split: option.splits)
next
  case True
  let ?key = "flowKey env (md_Network md) (md_SourceAddrPort md)"
  have key: "?key \<noteq> []" using assms(2) by (simp add: flowKey_def)
  obtain pid where p: "now - lastScan m > second_ns" "pid \<noteq> 0" "map_of (rev (scan_entries env)) ?key = Some pid"
      "if lookupName m pid \<noteq> [] then lookupName m pid = name
       else process_exists env pid \<and> (\<exists>n. process_Name env pid = Some n \<and> Normalize n = name)"
    using assms(1) True unfolding attributed_def by blast
  have "rescans now env m md" using key True p(1) by (simp add: rescans_def stale_def Time_Sub_def Let_def)
  moreover have "pid \<in> snd ` set (scan_entries env)" using map_of_SomeD [OF p(3)] by force
  ultimately show ?thesis
    using p by (cases "lookupName m pid = []") (auto simp: query_state_def owner_name_def step_simps fresh_name_def)
qed

lemma loaded_processes:
  assumes "LoadFile readFile unmarshal (fl_config fl) = Inr fc" "loadRuntimeConfig readFile unmarshal fl = Inr cfg"
  shows "rt_ExcludedProcesses cfg = normalizeProcessList (pick [] (changed [] (fl_exclude fl)) (ExcludedProcesses fc))"
  using assms by (simp add: loadRuntimeConfig_def Finalize_absorb Finalize_cases finalized_def Merge_pick overrides_fields)

text \<open>C3. An excluded process goes around the proxy, from the file and the command line to the dialer: let the list of
  excluded processes that counts, the one of the command line when it gives one and otherwise the one of
  the file, hold a name; then in every state its matcher can reach the running chain dials a flow directly,
  TCP and UDP alike, when the tables attribute the flow to a process whose name has the same normal form,
  whatever their case and an ending \<^verbatim>\<open>.exe\<close>, or when the flow is unknown, the last scan is more than a second old and
  the connection tables list the flow with such a process. A flow that is opened less than a second after a
  scan is not covered: the matcher does not scan for it.\<close>

theorem configured_process_direct:
  assumes load: "LoadFile readFile unmarshal (fl_config fl) = Inr fc" "loadRuntimeConfig readFile unmarshal fl = Inr cfg"
    and n: "n \<in> set (pick [] (changed [] (fl_exclude fl)) (ExcludedProcesses fc))" "Normalize (Normalize n) \<noteq> []"
    and m: "reachable_matcher (rt_ExcludedProcesses cfg) (rt_ExcludeRefresh cfg) h m"
    and src: "AddrPort_IsValid (md_SourceAddrPort md)"
    and flow: "attributed now env m (flowKey env (md_Network md) (md_SourceAddrPort md)) (Normalize n)"
  shows "fst (DialContext ShouldSkip now env (running_chain NewDirect upstream cfg m) md) = px_DialContext NewDirect md \<and>
    fst (DialUDP ShouldSkip now env (running_chain NewDirect upstream cfg m) md) = px_DialUDP NewDirect md"
proof -
  have "rt_ExcludedProcesses cfg = normalizeProcessList (pick [] (changed [] (fl_exclude fl)) (ExcludedProcesses fc))"
    using load loaded_processes by blast
  moreover have "Normalize n \<noteq> []" using n(2) by (auto simp: Normalize_def go_defs)
  ultimately have "Normalize n \<in> set (rt_ExcludedProcesses cfg)" using n(1) by (simp add: normalizeProcessList_set)
  moreover have t: "targets m = Normalize ` set (rt_ExcludedProcesses cfg) - {[]}" using reachable_matcher_inv [OF m] by (simp add: matcher_inv_def)
  ultimately have "Normalize (Normalize n) \<in> targets m" using n(2) by blast
  then have "excluded_flow now env (Some m) md" using attributed_owner [OF flow src] src by (auto simp: excluded_flow_def)
  then have "bypasses excluded_flow now env (running_chain NewDirect upstream cfg m) md"
    by (auto simp: bypasses_def running_chain_def Chain_New_def)
  moreover have "chain_ok matcher_ok (running_chain NewDirect upstream cfg m)"
    using t by (simp add: chain_ok_def running_chain_def Chain_New_def matcher_ok_def)
  ultimately show ?thesis
    using proc_matcher.dial_route [of "running_chain NewDirect upstream cfg m" now env md] by (simp add: running_chain_def Chain_New_def)
qed

text \<open>C4. An excluded prefix of the configuration goes around the proxy: a flow whose destination lies in the
  prefix of an entry is dialled directly by the chain that the program wires up, whatever the process
  tables say.\<close>

theorem configured_prefix_direct:
  assumes "Finalize c = Inr cfg" "s \<in> set (prefix_entries (ExcludedIPs c))"
    and "parse_prefix_entry s = Inr p" "Prefix_Contains p (Unmap (md_DstIP md))"
  shows "fst (DialContext ShouldSkip now env (wired_chain NewDirect upstream cfg) md) = px_DialContext NewDirect md \<and>
    fst (DialUDP ShouldSkip now env (wired_chain NewDirect upstream cfg) md) = px_DialUDP NewDirect md"
proof -
  have "p \<in> set (rt_ExcludedIPs cfg)"
    using assms(1-3) by (force simp: Finalize_cases finalized_def)
  then have "bypasses excluded_flow now env (wired_chain NewDirect upstream cfg) md"
    using assms(4) by (auto simp: bypasses_def wired_chain_fields)
  then show ?thesis
    using proc_matcher.dial_route [OF wired_chain_ok, of now env NewDirect upstream cfg md] by (simp add: wired_chain_fields)
qed

section \<open>The whole program on Linux\<close>

lemma Configure_linux_absent:
  assumes "linux_tools sys fw" "rules_absent fw (fst st)"
  shows "rules_absent fw (fst (snd (Configure_linux sys name st)))"
proof -
  have step: "rules_absent fw (fst st') \<Longrightarrow> rules_absent fw (fst (snd (run sys (''ip'' # args) st')))" for args st'
    unfolding rules_absent_def by (rule absent_run [OF assms(1)])
  show ?thesis using assms(2) step by (simp add: Configure_linux_def case_prod_beta Let_def)
qed

lemma run_driver_either:
  assumes "run_driver os sys lib (wired_driver cfg log) s = (e, s')"
  shows "Driver_Run gvisor_serve os sys lib (wired_opts cfg log) s = (e, s') \<or> Driver_Run simple_serve os sys lib (wired_opts cfg log) s = (e, s')"
  using assms by (auto simp: wired_driver_def gvisor_Run_def simple_Run_def split: if_splits)

text \<open>C2. The whole program on Linux, from its flags to its exit: a configuration error or a proxy address that
  cannot be used leaves the world as it was; otherwise, however the run ends, the world is the one that
  opening, configuring and closing the device leaves, so that every route and firewall rule is taken
  back. The exit code is 0 only after the context was cancelled. The hypotheses are what the manuals say of
  single commands of \<^verbatim>\<open>ip\<close>, \<^verbatim>\<open>nft\<close> and \<^verbatim>\<open>iptables\<close>, that the packet stack and others leave the world alone
  during the run, and that opening the device leaves no firewall table or rule of the program, which
  is to say that there was none.\<close>

theorem main_footprint:
  assumes run: "nanotun_main Linux sys lib NewSocks5 NewDirect readFile unmarshal mkdir_ok fl w = (code, w', ls, l)"
    and tools: "linux_tools sys fw" and quiet: "quiet lib"
    and start: "\<And>name m. rules_absent fw (snd (lib_exec lib (TunOpen name m) w))"
  shows "w' = (case loadRuntimeConfig readFile unmarshal fl of
      Inl e \<Rightarrow> w
    | Inr cfg \<Rightarrow> (case buildProxy NewSocks5 (rt_Proxy cfg) of
                 Inl e \<Rightarrow> w
               | Inr p \<Rightarrow> footprint Configure_linux sys lib (wired_opts cfg (L ls)) w)) \<and>
    (code = 0 \<or> code = 1) \<and> (code = 1 \<or> (\<exists>k driver dl. l = k @ [DriverRan driver dl, TunnelClose] \<and> CtxDone \<in> set dl))"
proof (cases "loadRuntimeConfig readFile unmarshal fl")
  case (Inl e)
  then show ?thesis using run by (simp add: nanotun_main_def)
next
  case cfg: (Inr cfg)
  define g where "g = L (SetupWithDir mkdir_ok (rt_LogLevel cfg) (rt_LogDir cfg) logger_init)"
  obtain err wa la where app: "App_Run Linux sys lib NewSocks5 NewDirect (L logger_init) cfg g w = (err, wa, la)" by (metis prod.exhaust)
  have r: "code = (if err \<noteq> DriverError (CtxErr Canceled) then 1 else 0)" "w' = wa" "L ls = g" "l = la"
    using run app by (auto simp: nanotun_main_def cfg Let_def g_def)
  have mode: "rt_StackMode cfg \<in> {''gvisor'', ''simple''}"
    using cfg stack_mode_validated by (auto simp: loadRuntimeConfig_def split: sum.splits)
  show ?thesis
  proof (cases "buildProxy NewSocks5 (rt_Proxy cfg)")
    case (Inl e)
    then show ?thesis using app r cfg by (auto simp: App_Run_def)
  next
    case (Inr upstream)
    obtain e s where d: "run_driver Linux sys lib (wired_driver cfg g) \<lparr>dr_world = w, dr_log = []\<rparr> = (e, s)" by (rule prod.exhaust)
    note res = App_Run_validated [OF mode Inr d, of NewDirect "L logger_init"]
    have ready: "linux_ready sys (rules_absent fw)" using tools by (auto simp: linux_ready_def)
    have "rules_absent fw (configured_world Configure_linux sys lib (wired_opts cfg g) (dr_world \<lparr>dr_world = w, dr_log = []\<rparr>))"
      using Configure_linux_absent [OF tools] start by (simp add: configured_world_def Let_def)
    then have "dr_world s = footprint Configure_linux sys lib (wired_opts cfg g) w"
      using run_driver_either [OF d] gvisor_linux.Run_footprint [OF _ quiet ready Configure.simps(1)]
        simple_linux.Run_footprint [OF _ quiet ready Configure.simps(1)] by fastforce
    moreover have "CtxDone \<in> set (dr_log s)" if "e = CtxErr Canceled"
      using run_driver_either [OF d] that gvisor.Run_shutdown simple.Run_shutdown by fastforce
    ultimately show ?thesis using res app r cfg Inr by auto
  qed
qed

section \<open>Witnesses\<close>

text \<open>A file that excludes a process, no flags but the file's name, and the matcher of the run after its first scan,
  which already lists the flow of the process.\<close>

definition steam_config :: Config where
  "steam_config = wit_config\<lparr>ExcludedProcesses := [''steam.exe'']\<rparr>"

definition steam_flags :: Flags where
  "steam_flags = \<lparr>fl_config = ''c.yaml'', fl_tun = None, fl_mtu = None, fl_stack = None, fl_proxy = None,
     fl_dns = None, fl_auto_route = None, fl_udp_timeout = None, fl_exclude = None, fl_exclude_refresh = None,
     fl_exclude_ip = None, fl_log_level = None, fl_log_dir = None\<rparr>"

definition steam_runtime :: Runtime where "steam_runtime = finalized steam_config"

lemma steam_load:
  "LoadFile (\<lambda>p. Inr []) (\<lambda>b. Inr steam_config) (fl_config steam_flags) = Inr steam_config"
  "loadRuntimeConfig (\<lambda>p. Inr []) (\<lambda>b. Inr steam_config) steam_flags = Inr steam_runtime"
proof -
  show f: "LoadFile (\<lambda>p. Inr []) (\<lambda>b. Inr steam_config) (fl_config steam_flags) = Inr steam_config"
    by (simp add: LoadFile_def steam_flags_def go_defs is_space_def)
  have "config_ok steam_config \<longleftrightarrow> config_ok wit_config" by (simp add: config_ok_def steam_config_def)
  then have "Finalize steam_config = Inr steam_runtime" using wit_config_final by (auto simp: Finalize_cases steam_runtime_def)
  moreover have "overrides steam_flags = Config_zero" by (simp add: overrides_def steam_flags_def changed_def Config_zero_def)
  ultimately show "loadRuntimeConfig (\<lambda>p. Inr []) (\<lambda>b. Inr steam_config) steam_flags = Inr steam_runtime"
    unfolding loadRuntimeConfig_def f sum.case Finalize_absorb by (simp add: Merge_zero)
qed

lemma steam_names: "Normalize ''steam.exe'' = ''steam''" "Normalize ''steam'' = ''steam''"
  by (simp_all add: Normalize_def exe_suffix_def go_defs)

lemma steam_reach: "reachable_matcher (rt_ExcludedProcesses steam_runtime) (rt_ExcludeRefresh steam_runtime) [wit_env] (scanOnce wit_env wit_matcher)"
proof -
  have "rt_ExcludedProcesses steam_runtime = [''steam'']" "rt_ExcludeRefresh steam_runtime = 15 * second_ns"
    by (simp_all add: steam_runtime_def finalized_def steam_config_def wit_config_def Config_zero_def normalizeProcessList_def steam_names pick_def)
  then have "Matcher_New (rt_ExcludedProcesses steam_runtime) (rt_ExcludeRefresh steam_runtime) = Some wit_matcher"
    by (simp add: Matcher_New_def wit_matcher_def steam_names)
  then show ?thesis by (intro reachable_matcher.tick reachable_matcher.start)
qed

theorem configured_process_direct_witness:
  "fst (DialContext ShouldSkip 3000000000 wit_env (running_chain (wit_proxy True) (wit_proxy False) steam_runtime (scanOnce wit_env wit_matcher)) wit_md) = Inr True"
proof -
  have "lookupPID (scanOnce wit_env wit_matcher) (flowKey wit_env TCP wit_src) = 7" by (simp add: lookupPID_def step_simps wit_entries)
  moreover have "pidNames (scanOnce wit_env wit_matcher) 7 = Some ''steam''" by (simp add: step_simps wit_entries wit_fields)
  ultimately have "attributed 3000000000 wit_env (scanOnce wit_env wit_matcher) (flowKey wit_env (md_Network wit_md) (md_SourceAddrPort wit_md)) (Normalize ''steam.exe'')"
    by (simp add: attributed_def wit_fields steam_names)
  from configured_process_direct [OF steam_load _ _ steam_reach _ this, of "wit_proxy True" "wit_proxy False"] show ?thesis
    by (simp add: steam_names wit_fields steam_flags_def steam_config_def changed_def pick_def wit_proxy_def)
qed

theorem configured_prefix_direct_witness:
  "fst (DialContext ShouldSkip 3000000000 wit_env (wired_chain (wit_proxy True) (wit_proxy False) (finalized wit_config))
     (wit_md\<lparr>md_DstIP := V4 0x0A080001\<rparr>)) = Inr True"
proof -
  have "parse_prefix_entry ''10.8.0.0/16'' = Inr (Prefix (V4 0x0A080000) 16)"
    by (simp add: parse_prefix_entry_def go_defs Masked.simps mask_eq_exp_minus_1)
  moreover have "''10.8.0.0/16'' \<in> set (prefix_entries (ExcludedIPs wit_config))"
    by (simp add: wit_config_def prefix_entries_def go_defs)
  ultimately show ?thesis
    using configured_prefix_direct [OF wit_config_final, of "''10.8.0.0/16''" "Prefix (V4 0x0A080000) 16" "wit_md\<lparr>md_DstIP := V4 0x0A080001\<rparr>"
      3000000000 wit_env "wit_proxy True" "wit_proxy False"]
    by (simp add: wit_proxy_def addr_simps)
qed

theorem main_footprint_witness:
  "\<exists>cfg code ls l. loadRuntimeConfig (\<lambda>p. Inl []) (\<lambda>b. Inl []) wit_flags = Inr cfg \<and> rt_AutoDefaultRoute cfg \<and>
     nanotun_main Linux (demo_linux [''iptables'']) demo_lib (\<lambda>a u p. Inr (wit_proxy True)) (wit_proxy False) (\<lambda>p. Inl []) (\<lambda>b. Inl []) (\<lambda>d. True)
       wit_flags demo_start = (code, demo_start, ls, l)"
proof -
  obtain code w' ls l where r: "nanotun_main Linux (demo_linux [''iptables'']) demo_lib (\<lambda>a u p. Inr (wit_proxy True)) (wit_proxy False) (\<lambda>p. Inl []) (\<lambda>b. Inl []) (\<lambda>d. True)
     wit_flags demo_start = (code, w', ls, l)" by (metis prod.exhaust)
  have start: "rules_absent demo_firewall (snd (lib_exec demo_lib (TunOpen name m) demo_start))" for name m
    by (simp add: demo_lib_def demo_rules_absent)
  have "footprint Configure_linux (demo_linux [''iptables'']) demo_lib opts demo_start = demo_start" for opts :: "(Handler, Logger) DriverOptions"
    by (rule demo_footprint [THEN conjunct2]) (rule demo_linux_configured(2))
  with main_footprint [OF r demo_linux_tools demo_lib_quiet start] have "w' = demo_start"
    by (auto split: sum.splits)
  moreover have "rt_AutoDefaultRoute (finalized (overrides wit_flags))" by (simp add: finalized_def overrides_def wit_flags_def changed_def)
  ultimately show ?thesis using r wit_flags_load by blast
qed

end
